theory Spec2Isabelle
  imports Complex_Main "HOL-Library.Option_ord"
begin

section \<open>Array primitives of the numerical library\<close>

text \<open>
  Arrays of rank 2 are lists of rows. Array entries are real numbers: rounding and
  overflow of the machine formats are outside this development. What the library
  raises on degenerate shapes is a value of \<open>error\<close>.
\<close>

datatype error = NotImplementedError | AssertionError | ValueError

datatype dtype = float16 | bfloat16 | float32 | float64

text \<open>\<open>jnp.finfo(dtype).tiny\<close>: the smallest positive normal number of the format.\<close>

fun finfo_tiny :: "dtype \<Rightarrow> real" where
  "finfo_tiny float16 = 1 / 2 ^ 14"
| "finfo_tiny bfloat16 = 1 / 2 ^ 126"
| "finfo_tiny float32 = 1 / 2 ^ 126"
| "finfo_tiny float64 = 1 / 2 ^ 1022"

text \<open>\<open>jnp.finfo(dtype).min\<close>: the most negative finite number of the format.\<close>

fun finfo_min :: "dtype \<Rightarrow> real" where
  "finfo_min float16 = - 65504"
| "finfo_min bfloat16 = - ((2 - 1 / 2 ^ 7) * 2 ^ 127)"
| "finfo_min float32 = - ((2 - 1 / 2 ^ 23) * 2 ^ 127)"
| "finfo_min float64 = - ((2 - 1 / 2 ^ 52) * 2 ^ 1023)"

text \<open>
  \<open>jnp.argmax\<close> over one row: the first index holding the maximum. The callers
  below guard against the empty row, on which the library raises.
\<close>

definition argmax :: "('a::linorder) list \<Rightarrow> nat" where
  "argmax xs = length (takeWhile (\<lambda>x. x \<noteq> Max (set xs)) xs)"

text \<open>
  Reading \<open>x[i]\<close> with a computed index: a negative index counts from the end, and an
  index out of range is clamped to the nearest valid one.
\<close>

definition jnp_index :: "nat \<Rightarrow> int \<Rightarrow> nat" where
  "jnp_index n i =
     (let j = (if i < 0 then i + int n else i)
      in nat (max 0 (min (int n - 1) j)))"

definition jnp_get :: "'a list \<Rightarrow> int \<Rightarrow> 'a" where
  "jnp_get xs i = xs ! jnp_index (length xs) i"

text \<open>
  Writing \<open>x.at[i].set(v)\<close>: a negative index counts from the end, and a write out of
  range is dropped.
\<close>

definition jnp_set :: "'a list \<Rightarrow> int \<Rightarrow> 'a \<Rightarrow> 'a list" where
  "jnp_set xs i v =
     (let j = (if i < 0 then i + int (length xs) else i)
      in if 0 \<le> j \<and> j < int (length xs) then xs[nat j := v] else xs)"

text \<open>\<open>jax.lax.fori_loop(lower, upper, body_fun, init_val)\<close>.\<close>

definition fori_loop :: "nat \<Rightarrow> nat \<Rightarrow> (nat \<Rightarrow> 's \<Rightarrow> 's) \<Rightarrow> 's \<Rightarrow> 's" where
  "fori_loop lower upper body_fun init_val =
     foldl (\<lambda>val i. body_fun i val) init_val [lower..<upper]"

text \<open>\<open>jax.nn.softmax\<close> along the last axis.\<close>

definition softmax :: "real list list \<Rightarrow> real list list" where
  "softmax x =
     map (\<lambda>row. map (\<lambda>v. exp (v - Max (set row)) / (\<Sum>u\<leftarrow>row. exp (u - Max (set row)))) row) x"

text \<open>
  \<open>jax.random.categorical(key, logits)\<close> is the Gumbel-max trick: the argmax, along the
  last axis, of the logits plus Gumbel noise drawn from the key, one variate per entry.
  The noise generator is an argument: \<open>gumbel key B A b a\<close> is entry \<open>(b, a)\<close> of the
  noise array of shape \<open>[B, A]\<close> drawn from \<open>key\<close>.
\<close>

definition categorical ::
  "('k \<Rightarrow> nat \<Rightarrow> nat \<Rightarrow> nat \<Rightarrow> nat \<Rightarrow> real) \<Rightarrow> 'k \<Rightarrow> real list list \<Rightarrow> error + int list" where
  "categorical gumbel key logits =
     (if [] \<in> set logits then Inl ValueError
      else Inr (map2 (\<lambda>b row.
              int (argmax (map2 (\<lambda>a l. gumbel key (length logits) (length row) b a + l)
                              [0..<length row] row)))
            [0..<length logits] logits))"

section \<open>Helpers of the policies\<close>

text \<open>
  \<open>_mask_invalid_actions(logits, invalid_actions)\<close>. The mask holds ones at invalid
  actions and zeros at valid ones; \<open>jnp.where\<close> takes every non-zero entry as true.
  The entries are real numbers here: the subtraction of the row's maximum is exact,
  whereas in a machine format it overflows to \<open>-\<infinity>\<close> for finite logits that lie
  further apart than the format's largest number, and entries that are not numbers or
  infinite have no counterpart. Nothing below speaks about such values.
\<close>

definition mask_invalid_actions ::
  "dtype \<Rightarrow> real list list \<Rightarrow> real list list option \<Rightarrow> error + real list list" where
  "mask_invalid_actions dt logits invalid_actions =
     (case invalid_actions of
        None \<Rightarrow> Inr logits
      | Some invalid \<Rightarrow>
          if map length logits \<noteq> map length invalid then Inl AssertionError
          else if [] \<in> set logits then Inl ValueError
          else Inr (map2 (\<lambda>row m.
                      map2 (\<lambda>l i. if i \<noteq> 0 then finfo_min dt else l - Max (set row)) row m)
                    logits invalid))"

text \<open>\<open>_get_logits_from_probs(probs)\<close>.\<close>

definition get_logits_from_probs :: "dtype \<Rightarrow> real list list \<Rightarrow> real list list" where
  "get_logits_from_probs dt probs = map (map (\<lambda>p. ln (max p (finfo_tiny dt)))) probs"

text \<open>
  \<open>_add_dirichlet_noise(rng_key, probs, dirichlet_alpha, dirichlet_fraction)\<close>. The two
  assertions of the source hold by the types here. The sampler is an argument:
  \<open>dirichlet key alpha A B b a\<close> is entry \<open>(b, a)\<close> of the sample of shape \<open>[B, A]\<close>.
\<close>

definition add_dirichlet_noise ::
  "('k \<Rightarrow> real \<Rightarrow> nat \<Rightarrow> nat \<Rightarrow> nat \<Rightarrow> nat \<Rightarrow> real) \<Rightarrow> 'k \<Rightarrow> real list list \<Rightarrow> real \<Rightarrow> real
     \<Rightarrow> real list list" where
  "add_dirichlet_noise dirichlet rng_key probs dirichlet_alpha dirichlet_fraction =
     (let batch_size = length probs;
          num_actions = (case probs of [] \<Rightarrow> 0 | row # _ \<Rightarrow> length row);
          noise = dirichlet rng_key dirichlet_alpha num_actions batch_size
      in map2 (\<lambda>b row.
            map2 (\<lambda>a p. (1 - dirichlet_fraction) * p + dirichlet_fraction * noise b a)
                 [0..<length row] row)
          [0..<length probs] probs)"

text \<open>\<open>_apply_temperature(logits, temperature)\<close>.\<close>

definition apply_temperature :: "dtype \<Rightarrow> real list list \<Rightarrow> real \<Rightarrow> error + real list list" where
  "apply_temperature dt logits temperature =
     (if [] \<in> set logits then Inl ValueError
      else Inr (map (\<lambda>row. map (\<lambda>l. (l - Max (set row)) / max (finfo_tiny dt) temperature) row)
                 logits))"

section \<open>The search tree and the external collaborators\<close>

text \<open>
  Modelled from the spec: the tree class (\<open>tree.py\<close>) is not part of the sources at hand;
  the fields are those of the data model, for \<open>B\<close> trees of \<open>N\<close> nodes and \<open>A\<close> actions.
\<close>

record ('e, 'x) tree =
  node_visits :: "int list list"
  raw_values :: "real list list"
  node_values :: "real list list"
  parents :: "int list list"
  action_from_parent :: "int list list"
  children_index :: "int list list list"
  children_prior_logits :: "real list list list"
  children_visits :: "int list list list"
  children_values :: "real list list list"
  children_rewards :: "real list list list"
  embeddings :: "'e list list"
  root_index :: "int list"
  extra_data :: "'x option"

record search_summary =
  visit_counts :: "real list list"
  visit_probs :: "real list list"

text \<open>
  Modelled from the spec: \<open>Tree.summary\<close> is not part of the sources at hand. Per batch
  element it gives the visit counts of the root's children and their normalised
  distribution, the zero vector when no child was visited.
\<close>

definition summary :: "('e, 'x) tree \<Rightarrow> search_summary" where
  "summary t =
     (let counts = map2 (\<lambda>cv r. map real_of_int (jnp_get cv r)) (children_visits t) (root_index t)
      in \<lparr>visit_counts = counts,
          visit_probs = map (\<lambda>row. if 0 < sum_list row then map (\<lambda>c. c / sum_list row) row
                                     else map (\<lambda>c. 0) row) counts\<rparr>)"

record 'e root_fn_output =
  prior_logits :: "real list list"
  root_value :: "real list"
  embedding :: "'e list"

record ('a, 'e, 'x) policy_output =
  action :: "'a"
  action_weights :: "real list list"
  search_tree :: "('e, 'x) tree"

record gumbel_muzero_extra_data =
  root_gumbel :: "real list list"

text \<open>
  A Q-transform gives the completed Q-values of one node of one tree of the batch:
  \<open>qtransform tree b node_index\<close>.
\<close>

type_synonym ('e, 'x) qtransform = "('e, 'x) tree \<Rightarrow> nat \<Rightarrow> int \<Rightarrow> real list"

text \<open>
  The action-selection functions of \<open>action_selection.py\<close> are handed to the search
  unapplied; each constructor is one partial application made by the policies.
\<close>

datatype ('e, 'x) selection_fn =
    Muzero_action_selection real real "('e, 'x) qtransform" "nat option"
  | Gumbel_muzero_root_action_selection nat nat "('e, 'x) qtransform"
  | Gumbel_muzero_interior_action_selection "('e, 'x) qtransform"
  | Switching_action_selection_wrapper "('e, 'x) selection_fn" "('e, 'x) selection_fn"

text \<open>
  The collaborators the policies call and whose code is not part of the sources at hand:
  the random-number generator, the search driver and its steps, and the sentinels of the
  tree. \<open>'k\<close> is the type of keys, \<open>'p\<close> of the model's parameters, \<open>'r\<close> of the
  recurrent function.
\<close>

record ('k, 'e, 'x, 'p, 'r) env =
  random_split2 :: "'k \<Rightarrow> 'k \<times> 'k"
  random_split3 :: "'k \<Rightarrow> 'k \<times> 'k \<times> 'k"
  random_split_n :: "'k \<Rightarrow> nat \<Rightarrow> 'k list"
  random_gumbel :: "'k \<Rightarrow> nat \<Rightarrow> nat \<Rightarrow> nat \<Rightarrow> nat \<Rightarrow> real"
  random_dirichlet :: "'k \<Rightarrow> real \<Rightarrow> nat \<Rightarrow> nat \<Rightarrow> nat \<Rightarrow> nat \<Rightarrow> real"
  search :: "'p \<Rightarrow> 'k \<Rightarrow> 'e root_fn_output \<Rightarrow> 'r \<Rightarrow> ('e, 'x) selection_fn \<Rightarrow> ('e, 'x) selection_fn
              \<Rightarrow> nat \<Rightarrow> int option \<Rightarrow> real list list option \<Rightarrow> 'x option \<Rightarrow> ('e, 'x) tree"
  simulate :: "'k list \<Rightarrow> ('e, 'x) tree \<Rightarrow> ('e, 'x) selection_fn \<Rightarrow> int \<Rightarrow> int list \<times> int list"
  expand :: "'p \<Rightarrow> 'k \<Rightarrow> ('e, 'x) tree \<Rightarrow> 'r \<Rightarrow> int list \<Rightarrow> int list \<Rightarrow> int list \<Rightarrow> ('e, 'x) tree"
  backward :: "('e, 'x) tree \<Rightarrow> int list \<Rightarrow> ('e, 'x) tree"
  instantiate_tree_from_root ::
    "'e root_fn_output \<Rightarrow> nat \<Rightarrow> real list list \<Rightarrow> 'x option \<Rightarrow> ('e, 'x) tree"
  UNVISITED :: int
  NO_PARENT :: int
  INITIAL_ROOT_INDEX :: int

section \<open>The standard policy\<close>

text \<open>\<open>muzero_policy\<close>; \<open>dt\<close> is the floating-point format of the arrays, and
  \<open>root_output\<close> the argument \<open>root\<close> of the source.\<close>

definition muzero_policy ::
  "('k, 'e, 'x, 'p, 'r) env \<Rightarrow> dtype \<Rightarrow> 'p \<Rightarrow> 'k \<Rightarrow> 'e root_fn_output \<Rightarrow> 'r \<Rightarrow> nat
     \<Rightarrow> real list list option \<Rightarrow> int option \<Rightarrow> ('e, 'x) qtransform \<Rightarrow> real \<Rightarrow> real \<Rightarrow> real \<Rightarrow> real
     \<Rightarrow> real \<Rightarrow> error + (int list, 'e, 'x) policy_output" where
  "muzero_policy env dt params rng_key root_output recurrent_fn num_simulations invalid_actions max_depth
       qtransform dirichlet_fraction dirichlet_alpha pb_c_init pb_c_base temperature =
     (let (rng_key, dirichlet_rng_key, search_rng_key) = random_split3 env rng_key;
          noisy_logits = get_logits_from_probs dt
            (add_dirichlet_noise (random_dirichlet env) dirichlet_rng_key (softmax (prior_logits root_output))
               dirichlet_alpha dirichlet_fraction)
      in case mask_invalid_actions dt noisy_logits invalid_actions of
           Inl e \<Rightarrow> Inl e
         | Inr masked \<Rightarrow>
            (let root = root_output\<lparr>prior_logits := masked\<rparr>;
                 interior_action_selection_fn =
                   Muzero_action_selection pb_c_base pb_c_init qtransform None;
                 root_action_selection_fn =
                   Muzero_action_selection pb_c_base pb_c_init qtransform (Some 0);
                 search_tree = search env params search_rng_key root recurrent_fn
                   root_action_selection_fn interior_action_selection_fn
                   num_simulations max_depth invalid_actions None;
                 summary = summary search_tree;
                 action_weights = visit_probs summary
             in (case apply_temperature dt (get_logits_from_probs dt action_weights) temperature of
                   Inl e \<Rightarrow> Inl e
                 | Inr action_logits \<Rightarrow>
                     (case categorical (random_gumbel env) rng_key action_logits of
                        Inl e \<Rightarrow> Inl e
                      | Inr sampled \<Rightarrow>
                          Inr \<lparr>action = sampled, action_weights = action_weights,
                               search_tree = search_tree\<rparr>))))"

section \<open>The Gumbel policy\<close>

text \<open>
  Modelled from the spec: \<open>seq_halving.score_considered\<close> is not part of the sources at
  hand. The score of an action is Gumbel noise plus prior logit plus completed Q-value,
  restricted to the actions whose visit count is the considered one; \<open>None\<close> is the
  score \<open>-\<infinity>\<close> of every other action.
\<close>

definition score_considered ::
  "real list \<Rightarrow> real list list \<Rightarrow> real list list \<Rightarrow> real list list \<Rightarrow> real list list
     \<Rightarrow> real option list list" where
  "score_considered considered_visit gumbel logits normalized_qvalues counts =
     map2 (\<lambda>b row.
        map2 (\<lambda>a c. if c = considered_visit ! b
                     then Some (gumbel ! b ! a + logits ! b ! a + normalized_qvalues ! b ! a)
                     else None)
             [0..<length row] row)
       [0..<length counts] counts"

text \<open>
  Modelled from the spec: \<open>action_selection.masked_argmax\<close> is not part of the sources at
  hand. Invalid actions are masked to \<open>-\<infinity>\<close> before the argmax, which takes the lowest
  index among equal scores, also when every score is \<open>-\<infinity>\<close>.
\<close>

definition masked_argmax :: "real option list list \<Rightarrow> real list list option \<Rightarrow> error + int list" where
  "masked_argmax to_argmax invalid_actions =
     (let masked = (case invalid_actions of
                      None \<Rightarrow> to_argmax
                    | Some invalid \<Rightarrow>
                        map2 (\<lambda>b row. map2 (\<lambda>a s. if invalid ! b ! a \<noteq> 0 then None else s)
                                           [0..<length row] row)
                             [0..<length to_argmax] to_argmax)
      in if [] \<in> set masked then Inl ValueError
         else Inr (map (\<lambda>row. int (argmax row)) masked))"

text \<open>\<open>gumbel_muzero_policy\<close>.\<close>

definition gumbel_muzero_policy ::
  "('k, 'e, gumbel_muzero_extra_data, 'p, 'r) env \<Rightarrow> dtype \<Rightarrow> 'p \<Rightarrow> 'k \<Rightarrow> 'e root_fn_output \<Rightarrow> 'r
     \<Rightarrow> nat \<Rightarrow> real list list option \<Rightarrow> int option \<Rightarrow> ('e, gumbel_muzero_extra_data) qtransform
     \<Rightarrow> nat \<Rightarrow> real \<Rightarrow> error + (int list, 'e, gumbel_muzero_extra_data) policy_output" where
  "gumbel_muzero_policy env dt params rng_key root_output recurrent_fn num_simulations
       invalid_actions max_depth qtransform max_num_considered_actions gumbel_scale =
     (case mask_invalid_actions dt (prior_logits root_output) invalid_actions of
        Inl e \<Rightarrow> Inl e
      | Inr masked \<Rightarrow>
         (let root = root_output\<lparr>prior_logits := masked\<rparr>;
              (rng_key, gumbel_rng) = random_split2 env rng_key;
              gumbel = map2 (\<lambda>b row.
                         map (\<lambda>a. gumbel_scale *
                                random_gumbel env gumbel_rng (length (prior_logits root)) (length row) b a)
                             [0..<length row])
                        [0..<length (prior_logits root)] (prior_logits root);
              extra = \<lparr>root_gumbel = gumbel\<rparr>;
              search_tree = search env params rng_key root recurrent_fn
                (Gumbel_muzero_root_action_selection num_simulations max_num_considered_actions
                   qtransform)
                (Gumbel_muzero_interior_action_selection qtransform)
                num_simulations max_depth invalid_actions (Some extra);
              summary = summary search_tree
          in if [] \<in> set (visit_counts summary) then Inl ValueError
             else
              (let considered_visit = map (\<lambda>row. Max (set row)) (visit_counts summary);
                   completed_qvalues =
                     map (\<lambda>b. qtransform search_tree b (INITIAL_ROOT_INDEX env))
                         [0..<length (node_values search_tree)];
                   to_argmax = score_considered considered_visit gumbel (prior_logits root)
                                 completed_qvalues (visit_counts summary)
               in (case masked_argmax to_argmax invalid_actions of
                     Inl e \<Rightarrow> Inl e
                   | Inr best \<Rightarrow>
                      (case mask_invalid_actions dt
                              (map2 (map2 (+)) (prior_logits root) completed_qvalues)
                              invalid_actions of
                         Inl e \<Rightarrow> Inl e
                       | Inr completed_search_logits \<Rightarrow>
                           Inr \<lparr>action = best,
                                action_weights = softmax completed_search_logits,
                                search_tree = search_tree\<rparr>)))))"

section \<open>The multi-step policy\<close>

text \<open>
  The calls the multi-step policy makes to its collaborators are recorded, in order, in a
  trace: the allocation of the tree with its number of simulations, the entry of one
  simulation with its counter, the calls of \<open>simulate\<close> (with the depth bound),
  \<open>expand\<close> and \<open>backward\<close> (with the node indices), and the call of the stopping
  predicate with the embedding it is given.
\<close>

datatype 'e event =
    Instantiate_tree nat
  | Simulation nat
  | Simulate int
  | Expand "int list"
  | Backward "int list"
  | Stopping_criteria "'e list"

text \<open>
  Modelled from the spec: \<open>search.batch_update\<close> is not part of the sources at hand. For
  each element of the batch it writes one value at one index of that element's row.
\<close>

definition batch_update :: "'a list list \<Rightarrow> 'a list \<Rightarrow> int list \<Rightarrow> 'a list list" where
  "batch_update x vals indices = map (\<lambda>(row, v, i). jnp_set row i v) (zip x (zip vals indices))"

text \<open>\<open>generate_next_action_inner\<close>, one simulation.\<close>

definition generate_next_action_inner ::
  "('k, 'e, 'x, 'p, 'r) env \<Rightarrow> 'p \<Rightarrow> 'r \<Rightarrow> nat \<Rightarrow> ('e, 'x) selection_fn \<Rightarrow> nat
     \<Rightarrow> ('k \<times> ('e, 'x) tree \<times> int) \<times> 'e event list
     \<Rightarrow> ('k \<times> ('e, 'x) tree \<times> int) \<times> 'e event list" where
  "generate_next_action_inner env params recurrent_fn batch_size action_selection_fn sim loop_state =
     (case loop_state of ((rng_key, tree, max_depth), trace) \<Rightarrow>
       (let (rng_key, simulate_key, expand_key) = random_split3 env rng_key;
            simulate_keys = random_split_n env simulate_key batch_size;
            (parent_index, chosen) = simulate env simulate_keys tree action_selection_fn max_depth;
            next_node_index =
              map (\<lambda>(b, p, a). jnp_get (jnp_get (jnp_get (children_index tree) (int b)) p) a)
                  (zip [0..<batch_size] (zip parent_index chosen));
            next_node_index =
              map (\<lambda>i. if i = UNVISITED env then int sim + 1 else i) next_node_index;
            tree = expand env params expand_key tree recurrent_fn parent_index chosen
                     next_node_index;
            tree = backward env tree next_node_index
        in ((rng_key, tree, max_depth),
            trace @ [Simulation sim, Simulate max_depth, Expand next_node_index,
                     Backward next_node_index])))"

text \<open>\<open>update_new_root_index\<close>, the body of the loop that computes the new roots.\<close>

definition update_new_root_index ::
  "('e, 'x) tree \<Rightarrow> int list \<Rightarrow> nat \<Rightarrow> int list \<Rightarrow> int list" where
  "update_new_root_index tree chosen batch_idx new_root_index =
     jnp_set new_root_index (int batch_idx)
       (jnp_get (jnp_get (jnp_get (children_index tree) (int batch_idx))
                   (jnp_get (root_index tree) (int batch_idx)))
          (jnp_get chosen (int batch_idx)))"

text \<open>
  The re-rooting step of \<open>generate_next_action\<close>: the new root indices, and the tree with
  its \<open>root_index\<close> and \<open>parents\<close> replaced.
\<close>

definition update_root :: "('k, 'e, 'x, 'p, 'r) env \<Rightarrow> nat \<Rightarrow> ('e, 'x) tree \<Rightarrow> int list \<Rightarrow> ('e, 'x) tree" where
  "update_root env batch_size tree chosen =
     (let new_root_index = fori_loop 0 batch_size (update_new_root_index tree chosen)
                             (replicate (length (root_index tree)) (- 1))
      in tree\<lparr>root_index := new_root_index,
              parents := batch_update (parents tree) (replicate batch_size (NO_PARENT env))
                           new_root_index\<rparr>)"

text \<open>
  \<open>generate_next_action\<close>, one round: the simulations, the sampling of the action, the
  re-rooting, and the stopping predicate. Writing a column of \<open>performed_actions\<close> from
  an array of another length is refused by the library.
\<close>

definition generate_next_action ::
  "('k, 'e, 'x, 'p, 'r) env \<Rightarrow> dtype \<Rightarrow> 'p \<Rightarrow> 'r \<Rightarrow> nat \<Rightarrow> ('e, 'x) selection_fn \<Rightarrow> nat \<Rightarrow> real
     \<Rightarrow> ('e list \<Rightarrow> bool) \<Rightarrow> nat
     \<Rightarrow> ('k \<times> ('e, 'x) tree \<times> int \<times> int list list \<times> bool) \<times> 'e event list
     \<Rightarrow> (error + 'k \<times> ('e, 'x) tree \<times> int \<times> int list list \<times> bool) \<times> 'e event list" where
  "generate_next_action env dt params recurrent_fn batch_size action_selection_fn num_simulations
       temperature stopping_criteria_fn generated_action loop_state =
     (case loop_state of
        ((rng_key, tree, max_depth, performed_actions, stop_generating), trace) \<Rightarrow>
       (case fori_loop (generated_action * num_simulations)
               ((generated_action + 1) * num_simulations)
               (generate_next_action_inner env params recurrent_fn batch_size action_selection_fn)
               ((rng_key, tree, max_depth), trace) of
          ((inner_key, tree, inner_depth), trace) \<Rightarrow>
         (let summary = summary tree;
              action_weights = visit_probs summary
          in (case apply_temperature dt (get_logits_from_probs dt action_weights) temperature of
                Inl e \<Rightarrow> (Inl e, trace)
              | Inr action_logits \<Rightarrow>
                 (case categorical (random_gumbel env) rng_key action_logits of
                    Inl e \<Rightarrow> (Inl e, trace)
                  | Inr chosen \<Rightarrow>
                     (let tree = update_root env batch_size tree chosen
                      in if length chosen \<noteq> length performed_actions then (Inl ValueError, trace)
                         else
                          (let performed_actions =
                                 map2 (\<lambda>row a. row[generated_action := a]) performed_actions chosen;
                               root_embedding =
                                 map2 (\<lambda>b r. jnp_get (jnp_get (embeddings tree) (int b)) r)
                                      [0..<batch_size] (root_index tree);
                               stop_generating = stopping_criteria_fn root_embedding
                           in (Inr (rng_key, tree, max_depth - 1, performed_actions,
                                    stop_generating),
                               trace @ [Stopping_criteria root_embedding]))))))))"

text \<open>\<open>generate_next_action_stopping_wrapper\<close>; an error raised by a round ends the loop.\<close>

definition generate_next_action_stopping_wrapper ::
  "('k, 'e, 'x, 'p, 'r) env \<Rightarrow> dtype \<Rightarrow> 'p \<Rightarrow> 'r \<Rightarrow> nat \<Rightarrow> ('e, 'x) selection_fn \<Rightarrow> nat \<Rightarrow> real
     \<Rightarrow> ('e list \<Rightarrow> bool) \<Rightarrow> nat
     \<Rightarrow> (error + 'k \<times> ('e, 'x) tree \<times> int \<times> int list list \<times> bool) \<times> 'e event list
     \<Rightarrow> (error + 'k \<times> ('e, 'x) tree \<times> int \<times> int list list \<times> bool) \<times> 'e event list" where
  "generate_next_action_stopping_wrapper env dt params recurrent_fn batch_size action_selection_fn
       num_simulations temperature stopping_criteria_fn generated_action loop_state =
     (case loop_state of
        (Inl e, trace) \<Rightarrow> (Inl e, trace)
      | (Inr (rng_key, tree, max_depth, performed_actions, stop_generating), trace) \<Rightarrow>
         (let stop_generating_is_true_or_max_depth_is_zero =
                (if stop_generating then True else max_depth = 0)
          in if stop_generating_is_true_or_max_depth_is_zero then loop_state
             else generate_next_action env dt params recurrent_fn batch_size action_selection_fn
                    num_simulations temperature stopping_criteria_fn generated_action
                    ((rng_key, tree, max_depth, performed_actions, stop_generating), trace)))"

text \<open>
  \<open>muzero_policy_for_action_sequence\<close>; the result comes with the trace of the calls
  made. \<open>extra\<close> is the argument \<open>extra_data\<close> of the source.
\<close>

definition muzero_policy_for_action_sequence ::
  "('k, 'e, 'x, 'p, 'r) env \<Rightarrow> dtype \<Rightarrow> 'p \<Rightarrow> 'k \<Rightarrow> 'e root_fn_output \<Rightarrow> 'r \<Rightarrow> nat
     \<Rightarrow> ('e list \<Rightarrow> bool) \<Rightarrow> real list list option \<Rightarrow> int option \<Rightarrow> ('e, 'x) qtransform
     \<Rightarrow> real \<Rightarrow> real \<Rightarrow> real \<Rightarrow> real \<Rightarrow> real \<Rightarrow> 'x option \<Rightarrow> nat
     \<Rightarrow> (error + (int list list, 'e, 'x) policy_output) \<times> 'e event list" where
  "muzero_policy_for_action_sequence env dt params rng_key root_output recurrent_fn num_simulations
       stopping_criteria_fn invalid_actions max_depth qtransform dirichlet_fraction dirichlet_alpha
       pb_c_init pb_c_base temperature extra num_actions_to_generate =
     (if invalid_actions \<noteq> None then (Inl NotImplementedError, [])
      else
       (let (rng_key, dirichlet_rng_key, search_rng_key) = random_split3 env rng_key;
            noisy_logits = get_logits_from_probs dt
              (add_dirichlet_noise (random_dirichlet env) dirichlet_rng_key
                 (softmax (prior_logits root_output)) dirichlet_alpha dirichlet_fraction)
        in (case mask_invalid_actions dt noisy_logits invalid_actions of
              Inl e \<Rightarrow> (Inl e, [])
            | Inr masked \<Rightarrow>
               (let root = root_output\<lparr>prior_logits := masked\<rparr>;
                    interior_action_selection_fn =
                      Muzero_action_selection pb_c_base pb_c_init qtransform None;
                    root_action_selection_fn =
                      Muzero_action_selection pb_c_base pb_c_init qtransform (Some 0);
                    action_selection_fn =
                      Switching_action_selection_wrapper root_action_selection_fn
                        interior_action_selection_fn;
                    batch_size = length (root_value root);
                    max_depth = (case max_depth of
                                   None \<Rightarrow> int (num_simulations * num_actions_to_generate)
                                 | Some d \<Rightarrow> d);
                    invalid_actions = (case invalid_actions of
                                         None \<Rightarrow> map (map (\<lambda>l. 0)) (prior_logits root)
                                       | Some invalid \<Rightarrow> invalid);
                    tree = instantiate_tree_from_root env root
                             (num_actions_to_generate * num_simulations) invalid_actions extra;
                    performed_actions =
                      replicate batch_size (replicate num_actions_to_generate (- 1))
                in (case fori_loop 0 num_actions_to_generate
                          (generate_next_action_stopping_wrapper env dt params recurrent_fn
                             batch_size action_selection_fn num_simulations temperature
                             stopping_criteria_fn)
                          (Inr (rng_key, tree, max_depth, performed_actions, False),
                           [Instantiate_tree (num_actions_to_generate * num_simulations)]) of
                      (Inl e, trace) \<Rightarrow> (Inl e, trace)
                    | (Inr (final_key, tree, final_depth, performed_actions, stopped), trace) \<Rightarrow>
                        (Inr \<lparr>action = performed_actions, action_weights = [],
                              search_tree = tree\<rparr>, trace))))))"

section \<open>A small environment for concrete runs\<close>

text \<open>
  One tree of three nodes and two actions: node 0 is the root, both its children are
  expanded (nodes 1 and 2) and were visited once each; the children have no children.
\<close>

definition example_tree :: "(nat, 'x) tree" where
  "example_tree =
     \<lparr>node_visits = [[3, 1, 1]],
      raw_values = [[0, 0, 0]],
      node_values = [[0, 0, 0]],
      parents = [[- 1, 0, 0]],
      action_from_parent = [[- 1, 0, 1]],
      children_index = [[[1, 2], [- 1, - 1], [- 1, - 1]]],
      children_prior_logits = [[[0, 0], [0, 0], [0, 0]]],
      children_visits = [[[1, 1], [0, 0], [0, 0]]],
      children_values = [[[0, 0], [0, 0], [0, 0]]],
      children_rewards = [[[0, 0], [0, 0], [0, 0]]],
      embeddings = [[10, 11, 12]],
      root_index = [0],
      extra_data = None\<rparr>"

text \<open>
  Keys are natural numbers. The Gumbel noise of this environment favours action 1 under
  an even key and action 0 under an odd one; every search returns the tree above, every
  simulation stops at the first edge of node 1, and expanding and backing up leave the
  tree as it is.
\<close>

definition example_env :: "(nat, nat, 'x, unit, unit) env" where
  "example_env =
     \<lparr>random_split2 = (\<lambda>k. (2 * k + 1, 2 * k + 2)),
      random_split3 = (\<lambda>k. (3 * k + 1, 3 * k + 2, 3 * k + 3)),
      random_split_n = (\<lambda>k n. map (\<lambda>i. k * n + i) [0..<n]),
      random_gumbel = (\<lambda>k B A b a. if even (k + a) then 0 else 1),
      random_dirichlet = (\<lambda>k alpha A B b a. 0),
      search = (\<lambda>params k r f root_fn interior_fn n d invalid x. example_tree),
      simulate = (\<lambda>keys t f d. (map (\<lambda>k. 1) keys, map (\<lambda>k. 0) keys)),
      expand = (\<lambda>params k t f parent_index chosen next_node_index. t),
      backward = (\<lambda>t next_node_index. t),
      instantiate_tree_from_root = (\<lambda>r n invalid x. example_tree),
      UNVISITED = - 1,
      NO_PARENT = - 1,
      INITIAL_ROOT_INDEX = 0\<rparr>"

definition example_root :: "nat root_fn_output" where
  "example_root = \<lparr>prior_logits = [[0, 0]], root_value = [0], embedding = [10]\<rparr>"



section \<open>General lemmas\<close>


lemma map2_upt_id: "map2 (\<lambda>i x. x) [0..<length xs] xs = xs"
  by (simp add: map_snd_zip case_prod_unfold)

lemma fori_loop_Suc:
  "lower \<le> upper \<Longrightarrow> fori_loop lower (Suc upper) f s = f upper (fori_loop lower upper f s)"
  by (simp add: fori_loop_def)

lemma fori_loop_empty: "upper \<le> lower \<Longrightarrow> fori_loop lower upper f s = s"
  by (simp add: fori_loop_def)

lemma jnp_get_nat: "n < length xs \<Longrightarrow> jnp_get xs (int n) = xs ! n"
  by (simp add: jnp_get_def jnp_index_def Let_def)

lemma jnp_set_nat: "n < length xs \<Longrightarrow> jnp_set xs (int n) v = xs[n := v]"
  by (simp add: jnp_set_def Let_def)

lemma length_jnp_set: "length (jnp_set xs i v) = length xs"
  by (simp add: jnp_set_def Let_def)

lemma nth_jnp_set:
  "n < length xs \<Longrightarrow>
   jnp_set xs i v ! n =
     (if int n = (if i < 0 then i + int (length xs) else i) then v else xs ! n)"
  by (auto simp add: jnp_set_def Let_def nth_list_update)

lemma fori_loop_jnp_set_prefix:
  "n \<le> length xs \<Longrightarrow>
   fori_loop 0 n (\<lambda>b acc. jnp_set acc (int b) (f b)) xs = map f [0..<n] @ drop n xs"
proof (induction n)
  case 0
  then show ?case by (simp add: fori_loop_empty)
next
  case (Suc n)
  then have n: "n < length xs" by simp
  have "fori_loop 0 (Suc n) (\<lambda>b acc. jnp_set acc (int b) (f b)) xs =
        jnp_set (map f [0..<n] @ drop n xs) (int n) (f n)"
    using Suc by (simp add: fori_loop_Suc)
  also have "\<dots> = (map f [0..<n] @ drop n xs)[n := f n]"
    using n by (simp add: jnp_set_nat)
  also have "\<dots> = map f [0..<n] @ (drop n xs)[0 := f n]"
    by (simp add: list_update_append)
  also have "(drop n xs)[0 := f n] = f n # drop (Suc n) xs"
    using n by (simp add: Cons_nth_drop_Suc [symmetric])
  finally show ?case by simp
qed

lemma fori_loop_jnp_set_all:
  "length xs = n \<Longrightarrow> fori_loop 0 n (\<lambda>b acc. jnp_set acc (int b) (f b)) xs = map f [0..<n]"
  by (simp add: fori_loop_jnp_set_prefix)

section \<open>Dirichlet noise at fraction zero\<close>

lemma add_dirichlet_noise_zero:
  "add_dirichlet_noise dirichlet rng_key probs dirichlet_alpha 0 = probs"
proof -
  have row: "map2 (\<lambda>a p. p) [0..<length row] row = row" for row :: "real list"
    by (rule map2_upt_id)
  have "map2 (\<lambda>b row. row) [0..<length probs] probs = probs"
    by (rule map2_upt_id)
  then show ?thesis
    by (simp add: add_dirichlet_noise_def Let_def row)
qed

text \<open>
  Claim C9. With \<open>dirichlet_fraction = 0\<close> the noise mixing returns the probabilities
  unchanged, whatever the key and the sampler; and the whole standard policy, hence the
  root priors it hands to the search, is the same under any other Dirichlet sampler.
\<close>

theorem dirichlet_fraction_zero_is_identity:
  "add_dirichlet_noise dirichlet rng_key probs dirichlet_alpha 0 = probs \<and>
   muzero_policy (env\<lparr>random_dirichlet := dirichlet'\<rparr>) dt params key root_output recurrent_fn
       num_simulations invalid_actions max_depth qtransform 0 dirichlet_alpha pb_c_init pb_c_base
       temperature =
   muzero_policy env dt params key root_output recurrent_fn
       num_simulations invalid_actions max_depth qtransform 0 dirichlet_alpha pb_c_init pb_c_base
       temperature"
  by (simp add: add_dirichlet_noise_zero muzero_policy_def Let_def case_prod_unfold
        cong: sum.case_cong)

section \<open>The multi-step policy refuses a mask of invalid actions\<close>

text \<open>
  Claim C2. Called with a mask of invalid actions, the multi-step policy returns the
  error \<open>NotImplementedError\<close> and its trace is empty: the tree was not allocated and
  no simulation, expansion or backward step was made.
\<close>

theorem invalid_actions_rejected_before_any_work:
  "muzero_policy_for_action_sequence env dt params rng_key root_output recurrent_fn num_simulations
       stopping_criteria_fn (Some invalid) max_depth qtransform dirichlet_fraction dirichlet_alpha
       pb_c_init pb_c_base temperature extra num_actions_to_generate =
   (Inl NotImplementedError, [])"
  by (simp add: muzero_policy_for_action_sequence_def)

section \<open>Re-rooting\<close>

lemma root_index_update_root:
  assumes "length (root_index tree) = batch_size"
  shows "root_index (update_root env batch_size tree chosen) =
         map (\<lambda>b. jnp_get (jnp_get (jnp_get (children_index tree) (int b))
                               (jnp_get (root_index tree) (int b)))
                      (jnp_get chosen (int b))) [0..<batch_size]"
proof -
  have "update_new_root_index tree chosen =
        (\<lambda>b acc. jnp_set acc (int b)
           (jnp_get (jnp_get (jnp_get (children_index tree) (int b))
                       (jnp_get (root_index tree) (int b)))
              (jnp_get chosen (int b))))"
    by (intro ext) (simp add: update_new_root_index_def)
  then show ?thesis
    using assms by (simp add: update_root_def Let_def fori_loop_jnp_set_all)
qed

lemma parents_update_root:
  "parents (update_root env batch_size tree chosen) =
   batch_update (parents tree) (replicate batch_size (NO_PARENT env))
     (root_index (update_root env batch_size tree chosen))"
  by (simp add: update_root_def Let_def)

lemma length_batch_update:
  "length (batch_update x vals indices) = min (length x) (min (length vals) (length indices))"
  by (simp add: batch_update_def)

lemma nth_batch_update:
  "b < length x \<Longrightarrow> b < length vals \<Longrightarrow> b < length indices \<Longrightarrow>
   batch_update x vals indices ! b = jnp_set (x ! b) (indices ! b) (vals ! b)"
  by (simp add: batch_update_def)

text \<open>
  Claim C7. On a tree of batch size \<open>batch_size\<close>, re-rooting sets \<open>root_index[b]\<close> to
  \<open>children_index[b, root_index[b], chosen[b]]\<close> and writes the sentinel \<open>NO_PARENT\<close> at
  the new root's entry of \<open>parents[b]\<close>, leaving every other entry of \<open>parents\<close> as it
  was; the eleven other fields of the tree are unchanged.
\<close>

theorem rerooting_changes_only_root_index_and_parents:
  assumes "length (root_index tree) = batch_size"
      and "length (parents tree) = batch_size"
      and "length (children_index tree) = batch_size"
      and "length chosen = batch_size"
  shows "length (root_index (update_root env batch_size tree chosen)) = batch_size \<and>
         (\<forall>b<batch_size.
            root_index (update_root env batch_size tree chosen) ! b =
              jnp_get (jnp_get (children_index tree ! b) (root_index tree ! b)) (chosen ! b)) \<and>
         length (parents (update_root env batch_size tree chosen)) = batch_size \<and>
         (\<forall>b<batch_size.
            length (parents (update_root env batch_size tree chosen) ! b) = length (parents tree ! b) \<and>
            (\<forall>n<length (parents tree ! b).
               parents (update_root env batch_size tree chosen) ! b ! n =
                 (let r = root_index (update_root env batch_size tree chosen) ! b
                  in if int n = (if r < 0 then r + int (length (parents tree ! b)) else r)
                     then NO_PARENT env else parents tree ! b ! n))) \<and>
         node_visits (update_root env batch_size tree chosen) = node_visits tree \<and>
         raw_values (update_root env batch_size tree chosen) = raw_values tree \<and>
         node_values (update_root env batch_size tree chosen) = node_values tree \<and>
         action_from_parent (update_root env batch_size tree chosen) = action_from_parent tree \<and>
         children_index (update_root env batch_size tree chosen) = children_index tree \<and>
         children_prior_logits (update_root env batch_size tree chosen) = children_prior_logits tree \<and>
         children_visits (update_root env batch_size tree chosen) = children_visits tree \<and>
         children_values (update_root env batch_size tree chosen) = children_values tree \<and>
         children_rewards (update_root env batch_size tree chosen) = children_rewards tree \<and>
         embeddings (update_root env batch_size tree chosen) = embeddings tree \<and>
         extra_data (update_root env batch_size tree chosen) = extra_data tree"
proof -
  let ?T = "update_root env batch_size tree chosen"
  have ri: "root_index ?T =
         map (\<lambda>b. jnp_get (jnp_get (jnp_get (children_index tree) (int b))
                               (jnp_get (root_index tree) (int b)))
                      (jnp_get chosen (int b))) [0..<batch_size]"
    using assms(1) by (rule root_index_update_root)
  have len_ri: "length (root_index ?T) = batch_size"
    by (simp add: ri)
  have nth_ri: "root_index ?T ! b =
      jnp_get (jnp_get (children_index tree ! b) (root_index tree ! b)) (chosen ! b)"
    if "b < batch_size" for b
    using that assms by (simp add: ri jnp_get_nat)
  have len_p: "length (parents ?T) = batch_size"
    using assms(2) len_ri by (simp add: parents_update_root length_batch_update)
  have nth_p: "parents ?T ! b = jnp_set (parents tree ! b) (root_index ?T ! b) (NO_PARENT env)"
    if "b < batch_size" for b
    using that assms(2) len_ri by (simp add: parents_update_root nth_batch_update)
  have frame:
    "node_visits ?T = node_visits tree \<and> raw_values ?T = raw_values tree \<and>
     node_values ?T = node_values tree \<and> action_from_parent ?T = action_from_parent tree \<and>
     children_index ?T = children_index tree \<and>
     children_prior_logits ?T = children_prior_logits tree \<and>
     children_visits ?T = children_visits tree \<and> children_values ?T = children_values tree \<and>
     children_rewards ?T = children_rewards tree \<and> embeddings ?T = embeddings tree \<and>
     extra_data ?T = extra_data tree"
    by (simp add: update_root_def Let_def)
  have entries: "length (parents ?T ! b) = length (parents tree ! b) \<and>
            (\<forall>n<length (parents tree ! b).
               parents ?T ! b ! n =
                 (let r = root_index ?T ! b
                  in if int n = (if r < 0 then r + int (length (parents tree ! b)) else r)
                     then NO_PARENT env else parents tree ! b ! n))"
    if "b < batch_size" for b
    using that by (simp add: nth_p length_jnp_set nth_jnp_set Let_def)
  from len_ri nth_ri len_p entries frame show ?thesis
    by blast
qed

theorem rerooting_witness:
  "length (root_index (example_tree :: (nat, unit) tree)) = 1 \<and>
   length (parents (example_tree :: (nat, unit) tree)) = 1 \<and>
   length (children_index (example_tree :: (nat, unit) tree)) = 1 \<and>
   length [1 :: int] = 1 \<and>
   root_index (update_root (example_env :: (nat, nat, unit, unit, unit) env) 1 (example_tree :: (nat, unit) tree) [1]) ! 0 = 2 \<and>
   parents (update_root (example_env :: (nat, nat, unit, unit, unit) env) 1 (example_tree :: (nat, unit) tree) [1]) ! 0 ! 2 = - 1 \<and>
   parents (update_root (example_env :: (nat, nat, unit, unit, unit) env) 1 (example_tree :: (nat, unit) tree) [1]) ! 0 ! 1 = 0 \<and>
   embeddings (update_root (example_env :: (nat, nat, unit, unit, unit) env) 1 (example_tree :: (nat, unit) tree) [1]) = [[10, 11, 12]]"
proof -
  let ?t = "example_tree :: (nat, unit) tree"
  have a: "length (root_index ?t) = 1" "length (parents ?t) = 1"
    "length (children_index ?t) = 1" "length [1 :: int] = 1"
    by (simp_all add: example_tree_def)
  note h = rerooting_changes_only_root_index_and_parents [OF a, of "example_env :: (nat, nat, unit, unit, unit) env"]
  from h have r: "root_index (update_root (example_env :: (nat, nat, unit, unit, unit) env) 1 ?t [1]) ! 0 =
      jnp_get (jnp_get (children_index ?t ! 0) (root_index ?t ! 0)) ([1] ! 0)"
    by simp
  have r2: "root_index (update_root (example_env :: (nat, nat, unit, unit, unit) env) 1 ?t [1]) ! 0 = 2"
    unfolding r by (simp add: example_tree_def jnp_get_def jnp_index_def)
  from h have p: "\<forall>n<length (parents ?t ! 0).
               parents (update_root (example_env :: (nat, nat, unit, unit, unit) env) 1 ?t [1]) ! 0 ! n =
                 (let r = root_index (update_root (example_env :: (nat, nat, unit, unit, unit) env) 1 ?t [1]) ! 0
                  in if int n = (if r < 0 then r + int (length (parents ?t ! 0)) else r)
                     then NO_PARENT (example_env :: (nat, nat, unit, unit, unit) env) else parents ?t ! 0 ! n)"
    by simp
  have l: "length (parents ?t ! 0) = 3" by (simp add: example_tree_def)
  have np: "NO_PARENT (example_env :: (nat, nat, unit, unit, unit) env) = - 1"
    by (simp add: example_env_def)
  have p2: "parents (update_root (example_env :: (nat, nat, unit, unit, unit) env) 1 ?t [1]) ! 0 ! 2 = - 1"
    using p [rule_format, of 2, unfolded l r2 np Let_def] by simp
  have "parents ?t ! 0 ! 1 = 0"
    by (simp add: example_tree_def)
  then have p1: "parents (update_root (example_env :: (nat, nat, unit, unit, unit) env) 1 ?t [1]) ! 0 ! 1 = 0"
    using p [rule_format, of 1, unfolded l r2 np Let_def] by simp
  from h have e: "embeddings (update_root (example_env :: (nat, nat, unit, unit, unit) env) 1 ?t [1]) = [[10, 11, 12]]"
    by (simp add: example_tree_def)
  from a r2 p2 p1 e show ?thesis by simp
qed

section \<open>Masking and logits\<close>

lemma mask_invalid_actions_Some:
  assumes "map length logits = map length invalid" and "[] \<notin> set logits"
  shows "\<exists>out. mask_invalid_actions dt logits (Some invalid) = Inr out \<and>
           map length out = map length logits \<and>
           (\<forall>b<length logits. \<forall>a<length (logits ! b).
              out ! b ! a = (if invalid ! b ! a \<noteq> 0 then finfo_min dt
                             else logits ! b ! a - Max (set (logits ! b))))"
proof -
  let ?out = "map2 (\<lambda>row m.
                map2 (\<lambda>l i. if i \<noteq> 0 then finfo_min dt else l - Max (set row)) row m)
              logits invalid"
  have len: "length logits = length invalid"
    using assms(1) by (metis length_map)
  have row: "length (logits ! b) = length (invalid ! b)" if "b < length logits" for b
    using assms(1) that len by (metis nth_map)
  have 1: "mask_invalid_actions dt logits (Some invalid) = Inr ?out"
    using assms by (simp add: mask_invalid_actions_def)
  have 2: "map length ?out = map length logits"
    using len row by (auto intro!: nth_equalityI)
  have 3: "?out ! b ! a = (if invalid ! b ! a \<noteq> 0 then finfo_min dt
                             else logits ! b ! a - Max (set (logits ! b)))"
    if "b < length logits" "a < length (logits ! b)" for b a
    using that len row by simp
  from 1 2 3 show ?thesis by blast
qed

section \<open>One simulation of the multi-step policy\<close>

lemma generate_next_action_inner_eq:
  assumes "random_split3 env rng_key = (rng_key', simulate_key, expand_key)"
      and "simulate env (random_split_n env simulate_key batch_size) tree action_selection_fn
             max_depth = (parent_index, chosen)"
  shows "generate_next_action_inner env params recurrent_fn batch_size action_selection_fn sim
           ((rng_key, tree, max_depth), trace) =
         (let next_node_index =
                map (\<lambda>i. if i = UNVISITED env then int sim + 1 else i)
                  (map (\<lambda>(b, p, a). jnp_get (jnp_get (jnp_get (children_index tree) (int b)) p) a)
                     (zip [0..<batch_size] (zip parent_index chosen)))
          in ((rng_key',
               backward env
                 (expand env params expand_key tree recurrent_fn parent_index chosen next_node_index)
                 next_node_index,
               max_depth),
              trace @ [Simulation sim, Simulate max_depth, Expand next_node_index,
                       Backward next_node_index]))"
  using assms by (simp add: generate_next_action_inner_def Let_def)

text \<open>
  Claim C3. In the simulation with loop counter \<open>sim\<close> (counted from 0, so it is
  simulation number \<open>sim + 1\<close>, node 0 being the initial root), the node index handed to
  \<open>expand\<close> and to \<open>backward\<close> is, for each element of the batch, \<open>sim + 1\<close> when the
  edge chosen by \<open>simulate\<close> holds the sentinel \<open>UNVISITED\<close>, and the index of the
  existing child otherwise.
\<close>

theorem expanded_node_index_is_simulation_counter:
  assumes "random_split3 env rng_key = (rng_key', simulate_key, expand_key)"
      and "simulate env (random_split_n env simulate_key batch_size) tree action_selection_fn
             max_depth = (parent_index, chosen)"
      and "length parent_index = batch_size"
      and "length chosen = batch_size"
      and "length (children_index tree) = batch_size"
  shows "\<exists>next_node_index.
           generate_next_action_inner env params recurrent_fn batch_size action_selection_fn sim
             ((rng_key, tree, max_depth), trace) =
           ((rng_key',
             backward env
               (expand env params expand_key tree recurrent_fn parent_index chosen next_node_index)
               next_node_index,
             max_depth),
            trace @ [Simulation sim, Simulate max_depth, Expand next_node_index,
                     Backward next_node_index]) \<and>
           length next_node_index = batch_size \<and>
           (\<forall>b<batch_size.
              next_node_index ! b =
                (let child = jnp_get (jnp_get (children_index tree ! b) (parent_index ! b)) (chosen ! b)
                 in if child = UNVISITED env then int sim + 1 else child))"
proof -
  let ?idx = "map (\<lambda>i. if i = UNVISITED env then int sim + 1 else i)
                  (map (\<lambda>(b, p, a). jnp_get (jnp_get (jnp_get (children_index tree) (int b)) p) a)
                     (zip [0..<batch_size] (zip parent_index chosen)))"
  have 1: "generate_next_action_inner env params recurrent_fn batch_size action_selection_fn sim
             ((rng_key, tree, max_depth), trace) =
           ((rng_key',
             backward env
               (expand env params expand_key tree recurrent_fn parent_index chosen ?idx) ?idx,
             max_depth),
            trace @ [Simulation sim, Simulate max_depth, Expand ?idx, Backward ?idx])"
    using generate_next_action_inner_eq [OF assms(1,2)] by (simp add: Let_def)
  have 2: "length ?idx = batch_size"
    using assms(3,4) by simp
  have 3: "?idx ! b =
      (let child = jnp_get (jnp_get (children_index tree ! b) (parent_index ! b)) (chosen ! b)
       in if child = UNVISITED env then int sim + 1 else child)"
    if "b < batch_size" for b
    using that assms(3,4,5) by (simp add: Let_def jnp_get_nat)
  from 1 2 3 show ?thesis by blast
qed

theorem expanded_node_index_witness:
  "random_split3 (example_env :: (nat, nat, unit, unit, unit) env) 0 = (1, 2, 3) \<and>
   simulate (example_env :: (nat, nat, unit, unit, unit) env)
     (random_split_n (example_env :: (nat, nat, unit, unit, unit) env) 2 1) example_tree
     (Gumbel_muzero_interior_action_selection (\<lambda>t b n. [])) 7 = ([1], [0]) \<and>
   length [1 :: int] = 1 \<and> length [0 :: int] = 1 \<and>
   length (children_index (example_tree :: (nat, unit) tree)) = 1 \<and>
   generate_next_action_inner (example_env :: (nat, nat, unit, unit, unit) env) () () 1
     (Gumbel_muzero_interior_action_selection (\<lambda>t b n. [])) 4 ((0, example_tree, 7), []) =
   ((1, example_tree, 7), [Simulation 4, Simulate 7, Expand [5], Backward [5]])"
proof -
  let ?e = "example_env :: (nat, nat, unit, unit, unit) env"
  let ?t = "example_tree :: (nat, unit) tree"
  let ?f = "Gumbel_muzero_interior_action_selection (\<lambda>t b n. []) :: (nat, unit) selection_fn"
  have a: "random_split3 ?e 0 = (1, 2, 3)"
    "simulate ?e (random_split_n ?e 2 1) ?t ?f 7 = ([1], [0])"
    "length [1 :: int] = 1" "length [0 :: int] = 1" "length (children_index ?t) = 1"
    by (simp_all add: example_env_def example_tree_def)
  from expanded_node_index_is_simulation_counter [OF a, of "()" "()" 4 "[]"]
  obtain idx where
    r: "generate_next_action_inner ?e () () 1 ?f 4 ((0, ?t, 7), []) =
        ((1, backward ?e (expand ?e () 3 ?t () [1] [0] idx) idx, 7),
         [] @ [Simulation 4, Simulate 7, Expand idx, Backward idx])"
    and l: "length idx = 1"
    and n: "\<forall>b<1. idx ! b =
              (let child = jnp_get (jnp_get (children_index ?t ! b) ([1] ! b)) ([0] ! b)
               in if child = UNVISITED ?e then int 4 + 1 else child)"
    by blast
  have "jnp_get (jnp_get (children_index ?t ! 0) 1) 0 = - 1"
    by (simp add: example_tree_def jnp_get_def jnp_index_def)
  moreover have "UNVISITED ?e = - 1"
    by (simp add: example_env_def)
  ultimately have "idx ! 0 = 5"
    using n by simp
  with l have idx: "idx = [5]"
    by (cases idx) simp_all
  have "backward ?e (expand ?e () 3 ?t () [1] [0] idx) idx = ?t"
    by (simp add: example_env_def)
  with r idx have "generate_next_action_inner ?e () () 1 ?f 4 ((0, ?t, 7), []) =
      ((1, ?t, 7), [Simulation 4, Simulate 7, Expand [5], Backward [5]])"
    by simp
  with a show ?thesis by simp
qed

section \<open>One round of the multi-step policy\<close>

lemma inner_step_trace:
  "\<exists>k' t' idx.
     generate_next_action_inner env params recurrent_fn batch_size f sim ((k, t, d), tr) =
     ((k', t', d), tr @ [Simulation sim, Simulate d, Expand idx, Backward idx])"
proof -
  obtain k' sk ek where s: "random_split3 env k = (k', sk, ek)"
    by (cases "random_split3 env k") auto
  obtain par ch where m: "simulate env (random_split_n env sk batch_size) t f d = (par, ch)"
    by (cases "simulate env (random_split_n env sk batch_size) t f d") auto
  show ?thesis
    unfolding generate_next_action_inner_eq [OF s m] Let_def by blast
qed

lemma inner_loop_trace:
  "\<exists>k' t' idxs. length idxs = n \<and>
     fori_loop l (l + n) (generate_next_action_inner env params recurrent_fn batch_size f)
       ((k, t, d), tr) =
     ((k', t', d),
      tr @ concat (map (\<lambda>i. [Simulation (l + i), Simulate d, Expand (idxs ! i),
                               Backward (idxs ! i)]) [0..<n]))"
proof (induction n)
  case 0
  show ?case by (simp add: fori_loop_empty)
next
  case (Suc n)
  then obtain k' t' idxs where len: "length idxs = n"
    and loop: "fori_loop l (l + n) (generate_next_action_inner env params recurrent_fn batch_size f)
       ((k, t, d), tr) =
     ((k', t', d),
      tr @ concat (map (\<lambda>i. [Simulation (l + i), Simulate d, Expand (idxs ! i),
                               Backward (idxs ! i)]) [0..<n]))"
    by blast
  let ?tr = "tr @ concat (map (\<lambda>i. [Simulation (l + i), Simulate d, Expand (idxs ! i),
                               Backward (idxs ! i)]) [0..<n])"
  obtain k'' t'' idx where step:
    "generate_next_action_inner env params recurrent_fn batch_size f (l + n) ((k', t', d), ?tr) =
     ((k'', t'', d), ?tr @ [Simulation (l + n), Simulate d, Expand idx, Backward idx])"
    using inner_step_trace [of env params recurrent_fn batch_size f "l + n" k' t' d ?tr]
    by blast
  have same: "map (\<lambda>i. [Simulation (l + i), Simulate d, Expand ((idxs @ [idx]) ! i),
                          Backward ((idxs @ [idx]) ! i)]) [0..<n] =
              map (\<lambda>i. [Simulation (l + i), Simulate d, Expand (idxs ! i),
                          Backward (idxs ! i)]) [0..<n]"
    using len by (intro map_cong) (simp_all add: nth_append)
  have at_n: "(idxs @ [idx]) ! n = idx"
    unfolding len [symmetric] by simp
  have "fori_loop l (l + Suc n) (generate_next_action_inner env params recurrent_fn batch_size f)
          ((k, t, d), tr) =
        ((k'', t'', d), ?tr @ [Simulation (l + n), Simulate d, Expand idx, Backward idx])"
    using loop step by (simp add: fori_loop_Suc)
  also have "?tr @ [Simulation (l + n), Simulate d, Expand idx, Backward idx] =
        tr @ concat (map (\<lambda>i. [Simulation (l + i), Simulate d, Expand ((idxs @ [idx]) ! i),
                                 Backward ((idxs @ [idx]) ! i)]) [0..<Suc n])"
    by (simp add: same at_n)
  finally show ?case
    using len by (intro exI [of _ k''] exI [of _ t''] exI [of _ "idxs @ [idx]"]) simp
qed

lemma generate_next_action_result:
  "\<exists>ts idxs. length idxs = num_simulations \<and>
     (let sims = concat (map (\<lambda>i. [Simulation (g * num_simulations + i), Simulate d,
                                    Expand (idxs ! i), Backward (idxs ! i)])
                           [0..<num_simulations])
      in (\<exists>e. generate_next_action env dt params recurrent_fn batch_size f num_simulations
                 temperature stopping_criteria_fn g ((k, t, d, pa, stop), tr) =
               (Inl e, tr @ sims)) \<or>
         (\<exists>chosen. length chosen = length pa \<and>
            generate_next_action env dt params recurrent_fn batch_size f num_simulations
                 temperature stopping_criteria_fn g ((k, t, d, pa, stop), tr) =
            (Inr (k, update_root env batch_size ts chosen, d - 1,
                  map2 (\<lambda>row a. row[g := a]) pa chosen,
                  stopping_criteria_fn
                    (map2 (\<lambda>b r. jnp_get (jnp_get (embeddings (update_root env batch_size ts chosen)) (int b)) r)
                       [0..<batch_size] (root_index (update_root env batch_size ts chosen)))),
             tr @ sims @
             [Stopping_criteria
                (map2 (\<lambda>b r. jnp_get (jnp_get (embeddings (update_root env batch_size ts chosen)) (int b)) r)
                   [0..<batch_size] (root_index (update_root env batch_size ts chosen)))])))"
proof -
  obtain k' ts idxs where len: "length idxs = num_simulations"
    and loop: "fori_loop (g * num_simulations) (g * num_simulations + num_simulations)
       (generate_next_action_inner env params recurrent_fn batch_size f) ((k, t, d), tr) =
     ((k', ts, d),
      tr @ concat (map (\<lambda>i. [Simulation (g * num_simulations + i), Simulate d, Expand (idxs ! i),
                               Backward (idxs ! i)]) [0..<num_simulations]))"
    using inner_loop_trace [of num_simulations "g * num_simulations" env params recurrent_fn
        batch_size f k t d tr]
    by blast
  have up: "(g + 1) * num_simulations = g * num_simulations + num_simulations"
    by simp
  show ?thesis
    apply (rule exI [of _ ts])
    apply (rule exI [of _ idxs])
    apply (simp only: len generate_next_action_def up loop prod.case Let_def)
    apply (auto split: sum.splits)
    done
qed

subsection \<open>A round of the small environment\<close>

lemma upt_0_2: "[0..<2] = [0, 1]"
  by (simp add: numeral_2_eq_2)

lemma example_summary:
  assumes "children_visits t = [[[1, 1], [0, 0], [0, 0]]]" and "root_index t = [0]"
  shows "visit_probs (summary t) = [[1 / 2, 1 / 2]]"
  by (simp add: summary_def assms jnp_get_def jnp_index_def)

lemma example_logits:
  "apply_temperature dt (get_logits_from_probs dt [[p, p]]) temperature = Inr [[0, 0]]"
  by (simp add: apply_temperature_def get_logits_from_probs_def del: finfo_tiny.simps)

lemma example_noise_row:
  "map2 (\<lambda>a l. random_gumbel (example_env :: (nat, nat, unit, unit, unit) env) 1 1 2 0 a + l)
     [0..<2] [0, 0] = [1, 0]"
  by (simp add: upt_0_2 example_env_def)

lemma argmax_1_0: "argmax [1, 0 :: real] = 0"
  by (simp add: argmax_def)


lemma example_categorical:
  "categorical (random_gumbel (example_env :: (nat, nat, unit, unit, unit) env)) 1 [[0, 0]] = Inr [0]"
  by (simp add: categorical_def example_env_def argmax_def numeral_2_eq_2)

lemma example_split3:
  "random_split3 (example_env :: (nat, nat, unit, unit, unit) env) k = (3 * k + 1, 3 * k + 2, 3 * k + 3)"
  by (simp add: example_env_def)

lemma example_simulate:
  "simulate (example_env :: (nat, nat, unit, unit, unit) env)
     (random_split_n (example_env :: (nat, nat, unit, unit, unit) env) k' 1) t f d = ([1], [0])"
  by (simp add: example_env_def)

lemma example_unvisited: "UNVISITED (example_env :: (nat, nat, unit, unit, unit) env) = - 1"
  by (simp add: example_env_def)

lemma example_expand_backward:
  "backward (example_env :: (nat, nat, unit, unit, unit) env)
     (expand (example_env :: (nat, nat, unit, unit, unit) env) p k t f par ch idx) idx' = t"
  by (simp add: example_env_def)

lemma example_edge:
  "jnp_get (jnp_get (jnp_get [[[1, 2], [- 1, - 1], [- 1, - 1 :: int]]] 0) 1) 0 = - 1"
  by (simp add: jnp_get_def jnp_index_def)

lemma example_inner:
  assumes "children_index t = [[[1, 2], [- 1, - 1], [- 1, - 1]]]"
  shows "generate_next_action_inner (example_env :: (nat, nat, unit, unit, unit) env) () () 1 f sim
           ((k, t, d), tr) =
         ((3 * k + 1, t, d),
          tr @ [Simulation sim, Simulate d, Expand [int sim + 1], Backward [int sim + 1]])"
proof -
  have idx: "map (\<lambda>i. if i = UNVISITED (example_env :: (nat, nat, unit, unit, unit) env)
                       then int sim + 1 else i)
               (map (\<lambda>(b, p, a). jnp_get (jnp_get (jnp_get (children_index t) (int b)) p) a)
                  (zip [0..<1] (zip [1] [0]))) = [int sim + 1]"
    by (simp add: assms example_unvisited example_edge)
  show ?thesis
    unfolding generate_next_action_inner_eq [OF example_split3 example_simulate] Let_def idx
      example_expand_backward ..
qed

lemma example_update_root:
  "update_root (example_env :: (nat, nat, unit, unit, unit) env) 1 (example_tree :: (nat, unit) tree) [0] =
   example_tree\<lparr>root_index := [1], parents := [[- 1, - 1, 0]]\<rparr>"
proof -
  have "fori_loop 0 1 (update_new_root_index (example_tree :: (nat, unit) tree) [0]) [- 1] = [1]"
    by (simp add: fori_loop_def update_new_root_index_def example_tree_def jnp_get_def
          jnp_index_def jnp_set_def)
  then show ?thesis
    by (simp add: update_root_def Let_def example_tree_def example_env_def batch_update_def
          jnp_set_def)
qed

lemma example_round:
  "generate_next_action (example_env :: (nat, nat, unit, unit, unit) env) float32 () () 1 f 1 1
     stopping_criteria_fn 0 ((1, example_tree, 2, [[- 1, - 1]], False), tr) =
   (Inr (1, example_tree\<lparr>root_index := [1], parents := [[- 1, - 1, 0]]\<rparr>, 1, [[0, - 1]],
         stopping_criteria_fn [11]),
    tr @ [Simulation 0, Simulate 2, Expand [1], Backward [1], Stopping_criteria [11]])"
proof -
  have ci: "children_index (example_tree :: (nat, unit) tree) = [[[1, 2], [- 1, - 1], [- 1, - 1]]]"
    by (simp add: example_tree_def)
  have loop: "fori_loop (0 * 1) ((0 + 1) * 1)
          (generate_next_action_inner (example_env :: (nat, nat, unit, unit, unit) env) () () 1 f)
          ((1, example_tree, 2), tr) =
        ((4, example_tree, 2), tr @ [Simulation 0, Simulate 2, Expand [1], Backward [1]])"
    using example_inner [OF ci, of f 0 1 2 tr] by (simp add: fori_loop_def)
  have probs: "visit_probs (summary (example_tree :: (nat, unit) tree)) = [[1 / 2, 1 / 2]]"
    by (rule example_summary) (simp_all add: example_tree_def)
  have emb: "map2 (\<lambda>b r. jnp_get (jnp_get
                 (embeddings ((example_tree :: (nat, unit) tree)\<lparr>root_index := [1], parents := [[- 1, - 1, 0]]\<rparr>))
                 (int b)) r) [0..<1]
               (root_index ((example_tree :: (nat, unit) tree)\<lparr>root_index := [1], parents := [[- 1, - 1, 0]]\<rparr>))
             = [11]"
    by (simp add: example_tree_def jnp_get_def jnp_index_def)
  show ?thesis
    unfolding generate_next_action_def prod.case loop Let_def probs example_logits sum.case
      example_categorical example_update_root emb
    by simp
qed

text \<open>
  Claim C4. A round \<open>g\<close> that returns has made exactly \<open>num_simulations\<close> cycles of
  \<open>simulate\<close>, \<open>expand\<close> and \<open>backward\<close>, with the simulation counters
  \<open>g * num_simulations, \<dots>, (g + 1) * num_simulations - 1\<close> in order, and then one call
  of the stopping predicate, on the embeddings of the roots of the re-rooted tree; the
  value of that call is the flag the round returns.
\<close>

theorem round_runs_num_simulations_cycles:
  assumes "generate_next_action env dt params recurrent_fn batch_size f num_simulations temperature
             stopping_criteria_fn g ((k, t, d, pa, stop), tr) =
           (Inr (k', t', d', pa', stop'), tr')"
  shows "\<exists>idxs ts chosen.
           length idxs = num_simulations \<and>
           t' = update_root env batch_size ts chosen \<and>
           tr' = tr @
             concat (map (\<lambda>i. [Simulation (g * num_simulations + i), Simulate d,
                                Expand (idxs ! i), Backward (idxs ! i)])
                       [0..<num_simulations]) @
             [Stopping_criteria
                (map2 (\<lambda>b r. jnp_get (jnp_get (embeddings t') (int b)) r)
                   [0..<batch_size] (root_index t'))] \<and>
           stop' = stopping_criteria_fn
                     (map2 (\<lambda>b r. jnp_get (jnp_get (embeddings t') (int b)) r)
                        [0..<batch_size] (root_index t'))"
proof -
  from generate_next_action_result [of num_simulations g d env dt params recurrent_fn batch_size f
      temperature stopping_criteria_fn k t pa stop tr]
  obtain ts idxs where len: "length idxs = num_simulations"
    and r: "(\<exists>e. generate_next_action env dt params recurrent_fn batch_size f num_simulations
                 temperature stopping_criteria_fn g ((k, t, d, pa, stop), tr) =
               (Inl e, tr @ concat (map (\<lambda>i. [Simulation (g * num_simulations + i), Simulate d,
                                    Expand (idxs ! i), Backward (idxs ! i)])
                           [0..<num_simulations]))) \<or>
         (\<exists>chosen. length chosen = length pa \<and>
            generate_next_action env dt params recurrent_fn batch_size f num_simulations
                 temperature stopping_criteria_fn g ((k, t, d, pa, stop), tr) =
            (Inr (k, update_root env batch_size ts chosen, d - 1,
                  map2 (\<lambda>row a. row[g := a]) pa chosen,
                  stopping_criteria_fn
                    (map2 (\<lambda>b r. jnp_get (jnp_get (embeddings (update_root env batch_size ts chosen)) (int b)) r)
                       [0..<batch_size] (root_index (update_root env batch_size ts chosen)))),
             tr @ concat (map (\<lambda>i. [Simulation (g * num_simulations + i), Simulate d,
                                    Expand (idxs ! i), Backward (idxs ! i)])
                           [0..<num_simulations]) @
             [Stopping_criteria
                (map2 (\<lambda>b r. jnp_get (jnp_get (embeddings (update_root env batch_size ts chosen)) (int b)) r)
                   [0..<batch_size] (root_index (update_root env batch_size ts chosen)))]))"
    unfolding Let_def by blast
  from r assms obtain chosen where
    "t' = update_root env batch_size ts chosen"
    "tr' = tr @ concat (map (\<lambda>i. [Simulation (g * num_simulations + i), Simulate d,
                                    Expand (idxs ! i), Backward (idxs ! i)])
                           [0..<num_simulations]) @
             [Stopping_criteria
                (map2 (\<lambda>b r. jnp_get (jnp_get (embeddings (update_root env batch_size ts chosen)) (int b)) r)
                   [0..<batch_size] (root_index (update_root env batch_size ts chosen)))]"
    "stop' = stopping_criteria_fn
                    (map2 (\<lambda>b r. jnp_get (jnp_get (embeddings (update_root env batch_size ts chosen)) (int b)) r)
                       [0..<batch_size] (root_index (update_root env batch_size ts chosen)))"
    by auto
  with len show ?thesis by blast
qed

theorem round_runs_num_simulations_cycles_witness:
  "generate_next_action (example_env :: (nat, nat, unit, unit, unit) env) float32 () () 1
     (Gumbel_muzero_interior_action_selection (\<lambda>t b n. [])) 1 1 (\<lambda>e. False) 0
     ((1, example_tree, 2, [[- 1, - 1]], False), []) =
   (Inr (1, example_tree\<lparr>root_index := [1], parents := [[- 1, - 1, 0]]\<rparr>, 1, [[0, - 1]], False),
    [Simulation 0, Simulate 2, Expand [1], Backward [1], Stopping_criteria [11]]) \<and>
   (\<exists>idxs ts chosen.
      length idxs = 1 \<and>
      (example_tree :: (nat, unit) tree)\<lparr>root_index := [1], parents := [[- 1, - 1, 0]]\<rparr> =
        update_root (example_env :: (nat, nat, unit, unit, unit) env) 1 ts chosen \<and>
      [Simulation 0, Simulate 2, Expand [1], Backward [1], Stopping_criteria [11 :: nat]] =
        [] @ concat (map (\<lambda>i. [Simulation (0 * 1 + i), Simulate 2, Expand (idxs ! i),
                                  Backward (idxs ! i)]) [0..<1]) @
        [Stopping_criteria
           (map2 (\<lambda>b r. jnp_get (jnp_get
                    (embeddings ((example_tree :: (nat, unit) tree)\<lparr>root_index := [1], parents := [[- 1, - 1, 0]]\<rparr>))
                    (int b)) r)
              [0..<1]
              (root_index ((example_tree :: (nat, unit) tree)\<lparr>root_index := [1], parents := [[- 1, - 1, 0]]\<rparr>)))])"
proof -
  have run: "generate_next_action (example_env :: (nat, nat, unit, unit, unit) env) float32 () () 1
     (Gumbel_muzero_interior_action_selection (\<lambda>t b n. [])) 1 1 (\<lambda>e. False) 0
     ((1, example_tree, 2, [[- 1, - 1]], False), []) =
   (Inr (1, example_tree\<lparr>root_index := [1], parents := [[- 1, - 1, 0]]\<rparr>, 1, [[0, - 1]], False),
    [Simulation 0, Simulate 2, Expand [1], Backward [1], Stopping_criteria [11]])"
    using example_round [of "Gumbel_muzero_interior_action_selection (\<lambda>t b n. [])" "\<lambda>e. False" "[]"]
    by simp
  from round_runs_num_simulations_cycles [OF run] run show ?thesis
    by blast
qed

section \<open>The generation loop of the multi-step policy\<close>

lemma wrapper_noop:
  "stop \<or> d = 0 \<Longrightarrow>
   generate_next_action_stopping_wrapper env dt params recurrent_fn batch_size f num_simulations
     temperature stopping_criteria_fn g (Inr (k, t, d, pa, stop), tr) =
   (Inr (k, t, d, pa, stop), tr)"
  by (auto simp add: generate_next_action_stopping_wrapper_def)

lemma wrapper_error:
  "generate_next_action_stopping_wrapper env dt params recurrent_fn batch_size f num_simulations
     temperature stopping_criteria_fn g (Inl e, tr) = (Inl e, tr)"
  by (simp add: generate_next_action_stopping_wrapper_def)

lemma wrapper_run:
  "\<not> stop \<Longrightarrow> d \<noteq> 0 \<Longrightarrow>
   generate_next_action_stopping_wrapper env dt params recurrent_fn batch_size f num_simulations
     temperature stopping_criteria_fn g (Inr (k, t, d, pa, stop), tr) =
   generate_next_action env dt params recurrent_fn batch_size f num_simulations
     temperature stopping_criteria_fn g ((k, t, d, pa, stop), tr)"
  by (simp add: generate_next_action_stopping_wrapper_def)

lemma foldl_fixed: "(\<And>i. f s i = s) \<Longrightarrow> foldl f s xs = s"
  by (induction xs) simp_all

lemma loop_noop:
  assumes "stop \<or> d = 0"
  shows "fori_loop g upper
           (generate_next_action_stopping_wrapper env dt params recurrent_fn batch_size f
              num_simulations temperature stopping_criteria_fn)
           (Inr (k, t, d, pa, stop), tr) =
         (Inr (k, t, d, pa, stop), tr)"
  unfolding fori_loop_def by (rule foldl_fixed) (rule wrapper_noop [OF assms])

lemma no_stopping_in_cycles:
  "filter (\<lambda>e. \<exists>x. e = Stopping_criteria x)
     (concat (map (\<lambda>i. [Simulation (l + i), Simulate d, Expand (idxs ! i), Backward (idxs ! i)])
                xs)) = []"
  by (induction xs) simp_all

lemma outer_loop_invariant:
  fixes tr0 :: "'e event list"
  assumes "filter (\<lambda>e. \<exists>x. e = Stopping_criteria x) tr0 = []"
  shows "case fori_loop 0 i
                (generate_next_action_stopping_wrapper env dt params recurrent_fn batch_size f
                   num_simulations temperature stopping_criteria_fn)
                (Inr (k0, t0, d0, replicate B (replicate G (- 1)), False), tr0) of
           (Inl e, tr) \<Rightarrow> True
         | (Inr (k, t, d, pa, stop), tr) \<Rightarrow>
             length (filter (\<lambda>e. \<exists>x. e = Stopping_criteria x) tr) \<le> i \<and>
             (length (filter (\<lambda>e. \<exists>x. e = Stopping_criteria x) tr) < i \<longrightarrow> stop \<or> d = 0) \<and>
             length pa = B \<and> (\<forall>row\<in>set pa. length row = G) \<and>
             (\<forall>b<B. \<forall>j<G. length (filter (\<lambda>e. \<exists>x. e = Stopping_criteria x) tr) \<le> j \<longrightarrow>
                 pa ! b ! j = - 1)"
proof (induction i)
  case 0
  show ?case using assms by (simp add: fori_loop_empty)
next
  case (Suc i)
  let ?W = "generate_next_action_stopping_wrapper env dt params recurrent_fn batch_size f
                   num_simulations temperature stopping_criteria_fn"
  let ?count = "\<lambda>tr :: 'e event list. length (filter (\<lambda>e. \<exists>x. e = Stopping_criteria x) tr)"
  obtain r tr where s: "fori_loop 0 i ?W
      (Inr (k0, t0, d0, replicate B (replicate G (- 1)), False), tr0) = (r, tr)"
    by (cases "fori_loop 0 i ?W (Inr (k0, t0, d0, replicate B (replicate G (- 1)), False), tr0)")
  have step: "fori_loop 0 (Suc i) ?W
      (Inr (k0, t0, d0, replicate B (replicate G (- 1)), False), tr0) = ?W i (r, tr)"
    by (simp add: fori_loop_Suc s)
  show ?case
  proof (cases r)
    case (Inl e)
    then show ?thesis by (simp add: step wrapper_error)
  next
    case (Inr st)
    obtain k t d pa stop where st: "st = (k, t, d, pa, stop)"
      by (cases st) auto
    from Suc s Inr st have inv:
      "?count tr \<le> i" "?count tr < i \<longrightarrow> stop \<or> d = 0"
      "length pa = B" "\<forall>row\<in>set pa. length row = G"
      "\<forall>b<B. \<forall>j<G. ?count tr \<le> j \<longrightarrow> pa ! b ! j = - 1"
      by simp_all
    show ?thesis
    proof (cases "stop \<or> d = 0")
      case True
      then have "?W i (r, tr) = (Inr (k, t, d, pa, stop), tr)"
        unfolding Inr st by (rule wrapper_noop)
      with inv True show ?thesis
        by (simp add: step)
    next
      case False
      with inv have cnt: "?count tr = i" by auto
      from False have run: "?W i (r, tr) =
          generate_next_action env dt params recurrent_fn batch_size f num_simulations
            temperature stopping_criteria_fn i ((k, t, d, pa, stop), tr)"
        unfolding Inr st by (simp add: wrapper_run)
      from generate_next_action_result [of num_simulations i d env dt params recurrent_fn
          batch_size f temperature stopping_criteria_fn k t pa stop tr]
      obtain ts idxs where
        r: "(\<exists>e. generate_next_action env dt params recurrent_fn batch_size f num_simulations
                 temperature stopping_criteria_fn i ((k, t, d, pa, stop), tr) =
               (Inl e, tr @ concat (map (\<lambda>j. [Simulation (i * num_simulations + j), Simulate d,
                                    Expand (idxs ! j), Backward (idxs ! j)])
                           [0..<num_simulations]))) \<or>
         (\<exists>chosen. length chosen = length pa \<and>
            generate_next_action env dt params recurrent_fn batch_size f num_simulations
                 temperature stopping_criteria_fn i ((k, t, d, pa, stop), tr) =
            (Inr (k, update_root env batch_size ts chosen, d - 1,
                  map2 (\<lambda>row a. row[i := a]) pa chosen,
                  stopping_criteria_fn
                    (map2 (\<lambda>b r. jnp_get (jnp_get (embeddings (update_root env batch_size ts chosen)) (int b)) r)
                       [0..<batch_size] (root_index (update_root env batch_size ts chosen)))),
             tr @ concat (map (\<lambda>j. [Simulation (i * num_simulations + j), Simulate d,
                                    Expand (idxs ! j), Backward (idxs ! j)])
                           [0..<num_simulations]) @
             [Stopping_criteria
                (map2 (\<lambda>b r. jnp_get (jnp_get (embeddings (update_root env batch_size ts chosen)) (int b)) r)
                   [0..<batch_size] (root_index (update_root env batch_size ts chosen)))]))"
        unfolding Let_def by blast
      from r show ?thesis
      proof
        assume "\<exists>e. generate_next_action env dt params recurrent_fn batch_size f num_simulations
                 temperature stopping_criteria_fn i ((k, t, d, pa, stop), tr) =
               (Inl e, tr @ concat (map (\<lambda>j. [Simulation (i * num_simulations + j), Simulate d,
                                    Expand (idxs ! j), Backward (idxs ! j)])
                           [0..<num_simulations]))"
        then show ?thesis
          by (auto simp add: step run)
      next
        assume "\<exists>chosen. length chosen = length pa \<and>
            generate_next_action env dt params recurrent_fn batch_size f num_simulations
                 temperature stopping_criteria_fn i ((k, t, d, pa, stop), tr) =
            (Inr (k, update_root env batch_size ts chosen, d - 1,
                  map2 (\<lambda>row a. row[i := a]) pa chosen,
                  stopping_criteria_fn
                    (map2 (\<lambda>b r. jnp_get (jnp_get (embeddings (update_root env batch_size ts chosen)) (int b)) r)
                       [0..<batch_size] (root_index (update_root env batch_size ts chosen)))),
             tr @ concat (map (\<lambda>j. [Simulation (i * num_simulations + j), Simulate d,
                                    Expand (idxs ! j), Backward (idxs ! j)])
                           [0..<num_simulations]) @
             [Stopping_criteria
                (map2 (\<lambda>b r. jnp_get (jnp_get (embeddings (update_root env batch_size ts chosen)) (int b)) r)
                   [0..<batch_size] (root_index (update_root env batch_size ts chosen)))])"
        then obtain chosen emb st' where len: "length chosen = length pa"
          and res: "generate_next_action env dt params recurrent_fn batch_size f num_simulations
                 temperature stopping_criteria_fn i ((k, t, d, pa, stop), tr) =
            (Inr (k, update_root env batch_size ts chosen, d - 1,
                  map2 (\<lambda>row a. row[i := a]) pa chosen, st'),
             tr @ concat (map (\<lambda>j. [Simulation (i * num_simulations + j), Simulate d,
                                    Expand (idxs ! j), Backward (idxs ! j)])
                           [0..<num_simulations]) @ [Stopping_criteria emb])"
          by blast
        let ?pa = "map2 (\<lambda>row a. row[i := a]) pa chosen"
        have c: "?count (tr @ concat (map (\<lambda>j. [Simulation (i * num_simulations + j), Simulate d,
                                    Expand (idxs ! j), Backward (idxs ! j)])
                           [0..<num_simulations]) @ [Stopping_criteria emb]) = Suc i"
          by (simp add: no_stopping_in_cycles cnt)
        have l: "length ?pa = B"
          using len inv(3) by simp
        have rows: "\<forall>row\<in>set ?pa. length row = G"
          using inv(4) by (auto simp add: set_zip)
        have ent: "?pa ! b ! j = - 1" if "b < B" "j < G" "Suc i \<le> j" for b j
        proof -
          have "?pa ! b = (pa ! b)[i := chosen ! b]"
            using that(1) len inv(3) by simp
          moreover have "pa ! b ! j = - 1"
            using inv(5) that cnt by simp
          ultimately show ?thesis
            using that(3) by simp
        qed
        show ?thesis
          unfolding step run res prod.case sum.case c
          using l rows ent by simp
      qed
    qed
  qed
qed


lemma policy_without_mask:
  "muzero_policy_for_action_sequence env dt params rng_key root_output recurrent_fn num_simulations
       stopping_criteria_fn None max_depth qtransform dirichlet_fraction dirichlet_alpha
       pb_c_init pb_c_base temperature extra num_actions_to_generate =
   (case fori_loop 0 num_actions_to_generate
           (generate_next_action_stopping_wrapper env dt params recurrent_fn
              (length (root_value root_output))
              (Switching_action_selection_wrapper
                 (Muzero_action_selection pb_c_base pb_c_init qtransform (Some 0))
                 (Muzero_action_selection pb_c_base pb_c_init qtransform None))
              num_simulations temperature stopping_criteria_fn)
           (Inr (fst (random_split3 env rng_key),
                 instantiate_tree_from_root env
                   (root_output\<lparr>prior_logits := get_logits_from_probs dt
                      (add_dirichlet_noise (random_dirichlet env)
                         (fst (snd (random_split3 env rng_key)))
                         (softmax (prior_logits root_output)) dirichlet_alpha dirichlet_fraction)\<rparr>)
                   (num_actions_to_generate * num_simulations)
                   (map (map (\<lambda>l. 0)) (get_logits_from_probs dt
                      (add_dirichlet_noise (random_dirichlet env)
                         (fst (snd (random_split3 env rng_key)))
                         (softmax (prior_logits root_output)) dirichlet_alpha dirichlet_fraction)))
                   extra,
                 (case max_depth of
                    None \<Rightarrow> int (num_simulations * num_actions_to_generate)
                  | Some d \<Rightarrow> d),
                 replicate (length (root_value root_output))
                   (replicate num_actions_to_generate (- 1)),
                 False),
            [Instantiate_tree (num_actions_to_generate * num_simulations)]) of
      (Inl e, trace) \<Rightarrow> (Inl e, trace)
    | (Inr (final_key, tree, final_depth, performed_actions, stopped), trace) \<Rightarrow>
        (Inr \<lparr>action = performed_actions, action_weights = [], search_tree = tree\<rparr>, trace))"
proof -
  obtain a b c where s: "random_split3 env rng_key = (a, b, c)"
    by (cases "random_split3 env rng_key") auto
  show ?thesis
    by (simp add: muzero_policy_for_action_sequence_def mask_invalid_actions_def Let_def s)
qed

lemma policy_returns:
  assumes "muzero_policy_for_action_sequence env dt params rng_key root_output recurrent_fn
             num_simulations stopping_criteria_fn invalid_actions max_depth qtransform
             dirichlet_fraction dirichlet_alpha pb_c_init pb_c_base temperature extra
             num_actions_to_generate = (Inr out, trace)"
  shows "action_weights out = [] \<and>
         length (action out) = length (root_value root_output) \<and>
         (\<forall>row\<in>set (action out). length row = num_actions_to_generate) \<and>
         (\<forall>b<length (action out). \<forall>j<num_actions_to_generate.
            length (filter (\<lambda>e. \<exists>x. e = Stopping_criteria x) trace) \<le> j \<longrightarrow>
            action out ! b ! j = - 1)"
proof (cases invalid_actions)
  case (Some invalid)
  with assms show ?thesis
    by (simp add: muzero_policy_for_action_sequence_def)
next
  case None
  let ?W = "generate_next_action_stopping_wrapper env dt params recurrent_fn
              (length (root_value root_output))
              (Switching_action_selection_wrapper
                 (Muzero_action_selection pb_c_base pb_c_init qtransform (Some 0))
                 (Muzero_action_selection pb_c_base pb_c_init qtransform None))
              num_simulations temperature stopping_criteria_fn"
  let ?init = "(Inr (fst (random_split3 env rng_key),
                 instantiate_tree_from_root env
                   (root_output\<lparr>prior_logits := get_logits_from_probs dt
                      (add_dirichlet_noise (random_dirichlet env)
                         (fst (snd (random_split3 env rng_key)))
                         (softmax (prior_logits root_output)) dirichlet_alpha dirichlet_fraction)\<rparr>)
                   (num_actions_to_generate * num_simulations)
                   (map (map (\<lambda>l. 0)) (get_logits_from_probs dt
                      (add_dirichlet_noise (random_dirichlet env)
                         (fst (snd (random_split3 env rng_key)))
                         (softmax (prior_logits root_output)) dirichlet_alpha dirichlet_fraction)))
                   extra,
                 (case max_depth of
                    None \<Rightarrow> int (num_simulations * num_actions_to_generate)
                  | Some d \<Rightarrow> d),
                 replicate (length (root_value root_output))
                   (replicate num_actions_to_generate (- 1)),
                 False),
            [Instantiate_tree (num_actions_to_generate * num_simulations)])"
  obtain r tr where loop: "fori_loop 0 num_actions_to_generate ?W ?init = (r, tr)"
    by (cases "fori_loop 0 num_actions_to_generate ?W ?init")
  from assms have res: "(case (r, tr) of
      (Inl e, trace) \<Rightarrow> (Inl e, trace)
    | (Inr (final_key, tree, final_depth, performed_actions, stopped), trace) \<Rightarrow>
        (Inr \<lparr>action = performed_actions, action_weights = [], search_tree = tree\<rparr>, trace)) =
      (Inr out, trace)"
    unfolding None policy_without_mask loop .
  then obtain k t d pa stop where r: "r = Inr (k, t, d, pa, stop)"
    and out: "out = \<lparr>action = pa, action_weights = [], search_tree = t\<rparr>" and tr: "trace = tr"
    by (cases r) auto
  have "case fori_loop 0 num_actions_to_generate ?W ?init of
           (Inl e, tr) \<Rightarrow> True
         | (Inr (k, t, d, pa, stop), tr) \<Rightarrow>
             length (filter (\<lambda>e. \<exists>x. e = Stopping_criteria x) tr) \<le> num_actions_to_generate \<and>
             (length (filter (\<lambda>e. \<exists>x. e = Stopping_criteria x) tr) < num_actions_to_generate \<longrightarrow>
                stop \<or> d = 0) \<and>
             length pa = length (root_value root_output) \<and>
             (\<forall>row\<in>set pa. length row = num_actions_to_generate) \<and>
             (\<forall>b<length (root_value root_output). \<forall>j<num_actions_to_generate.
                 length (filter (\<lambda>e. \<exists>x. e = Stopping_criteria x) tr) \<le> j \<longrightarrow>
                 pa ! b ! j = - 1)"
    by (rule outer_loop_invariant) simp
  then
  have "length pa = length (root_value root_output) \<and>
        (\<forall>row\<in>set pa. length row = num_actions_to_generate) \<and>
        (\<forall>b<length (root_value root_output). \<forall>j<num_actions_to_generate.
            length (filter (\<lambda>e. \<exists>x. e = Stopping_criteria x) tr) \<le> j \<longrightarrow> pa ! b ! j = - 1)"
    unfolding loop r by simp
  then show ?thesis
    unfolding out tr by simp
qed

subsection \<open>A run of the small environment\<close>

lemma example_instantiate:
  "instantiate_tree_from_root (example_env :: (nat, nat, unit, unit, unit) env) r n z x = example_tree"
  by (simp add: example_env_def)

lemma example_loop:
  "fori_loop 0 2
     (generate_next_action_stopping_wrapper (example_env :: (nat, nat, unit, unit, unit) env)
        float32 () () 1 f 1 1 (\<lambda>e. True))
     (Inr (1, example_tree, 2, [[- 1, - 1]], False), [Instantiate_tree 2]) =
   (Inr (1, example_tree\<lparr>root_index := [1], parents := [[- 1, - 1, 0]]\<rparr>, 1, [[0, - 1]], True),
    [Instantiate_tree 2, Simulation 0, Simulate 2, Expand [1], Backward [1],
     Stopping_criteria [11]])"
proof -
  let ?W = "generate_next_action_stopping_wrapper (example_env :: (nat, nat, unit, unit, unit) env)
        float32 () () 1 f 1 1 (\<lambda>e. True)"
  let ?s = "(Inr (1, example_tree, 2, [[- 1, - 1]], False), [Instantiate_tree 2]) ::
      (error + nat \<times> (nat, unit) tree \<times> int \<times> int list list \<times> bool) \<times> nat event list"
  have "fori_loop 0 2 ?W ?s = ?W 1 (?W 0 ?s)"
    by (simp add: fori_loop_def upt_0_2 del: One_nat_def)
  also have "?W 0 ?s =
      (Inr (1, example_tree\<lparr>root_index := [1], parents := [[- 1, - 1, 0]]\<rparr>, 1, [[0, - 1]], True),
       [Instantiate_tree 2] @
       [Simulation 0, Simulate 2, Expand [1], Backward [1], Stopping_criteria [11]])"
    by (subst wrapper_run) (simp_all only: example_round, simp_all)
  also have "?W 1 \<dots> =
      (Inr (1, example_tree\<lparr>root_index := [1], parents := [[- 1, - 1, 0]]\<rparr>, 1, [[0, - 1]], True),
       [Instantiate_tree 2] @
       [Simulation 0, Simulate 2, Expand [1], Backward [1], Stopping_criteria [11]])"
    by (rule wrapper_noop) simp
  finally show ?thesis by simp
qed

lemma example_run:
  "muzero_policy_for_action_sequence (example_env :: (nat, nat, unit, unit, unit) env) float32 () 0
     example_root () 1 (\<lambda>e. True) None None (\<lambda>t b n. []) 0 (3 / 10) (5 / 4) 19652 1 None 2 =
   (Inr \<lparr>action = [[0, - 1]], action_weights = [],
         search_tree = example_tree\<lparr>root_index := [1], parents := [[- 1, - 1, 0]]\<rparr>\<rparr>,
    [Instantiate_tree 2, Simulation 0, Simulate 2, Expand [1], Backward [1],
     Stopping_criteria [11]])"
proof -
  have key: "fst (random_split3 (example_env :: (nat, nat, unit, unit, unit) env) 0) = 1"
    by (simp add: example_split3)
  have B: "length (root_value example_root) = 1"
    by (simp add: example_root_def)
  have pa0: "replicate 1 (replicate 2 (- 1 :: int)) = [[- 1, - 1]]"
    by (simp add: numeral_2_eq_2)
  have n: "2 * 1 = (2 :: nat)" "int (1 * 2) = 2"
    by simp_all
  show ?thesis
    unfolding policy_without_mask example_instantiate key B pa0 option.case n example_loop
    by simp
qed

text \<open>
  Claim C10. Once the stopping flag is set or the depth countdown is 0, an iteration of
  the generation loop returns its state (key, tree, countdown, performed actions, flag)
  and trace unchanged, and so does any number of further iterations. When the policy
  returns, its action weights are the empty array, its action array has one row per
  element of the batch and \<open>num_actions_to_generate\<close> columns, and every column whose
  index is at least the number of rounds made (the number of calls of the stopping
  predicate in the trace) still holds the initial \<open>-1\<close>.
\<close>

theorem stopped_generation_is_noop:
  "(stop \<or> d = 0 \<longrightarrow>
      generate_next_action_stopping_wrapper env dt params recurrent_fn batch_size f num_simulations
        temperature stopping_criteria_fn g (Inr (k, t, d, pa, stop), tr) =
      (Inr (k, t, d, pa, stop), tr) \<and>
      fori_loop g upper
        (generate_next_action_stopping_wrapper env dt params recurrent_fn batch_size f
           num_simulations temperature stopping_criteria_fn)
        (Inr (k, t, d, pa, stop), tr) =
      (Inr (k, t, d, pa, stop), tr)) \<and>
   (muzero_policy_for_action_sequence env dt params rng_key root_output recurrent_fn
      num_simulations stopping_criteria_fn invalid_actions max_depth qtransform
      dirichlet_fraction dirichlet_alpha pb_c_init pb_c_base temperature extra
      num_actions_to_generate = (Inr out, trace) \<longrightarrow>
    action_weights out = [] \<and>
    length (action out) = length (root_value root_output) \<and>
    (\<forall>row\<in>set (action out). length row = num_actions_to_generate) \<and>
    (\<forall>b<length (action out). \<forall>j<num_actions_to_generate.
       length (filter (\<lambda>e. \<exists>x. e = Stopping_criteria x) trace) \<le> j \<longrightarrow>
       action out ! b ! j = - 1))"
  using wrapper_noop [of stop d env dt params recurrent_fn batch_size f num_simulations
      temperature stopping_criteria_fn g k t pa tr]
    loop_noop [of stop d g upper env dt params recurrent_fn batch_size f num_simulations
      temperature stopping_criteria_fn k t pa tr]
    policy_returns [of env dt params rng_key root_output recurrent_fn num_simulations
      stopping_criteria_fn invalid_actions max_depth qtransform dirichlet_fraction
      dirichlet_alpha pb_c_init pb_c_base temperature extra num_actions_to_generate out trace]
  by blast

theorem stopped_generation_witness:
  "(True \<or> (1 :: int) = 0) \<and>
   fori_loop 1 2
     (generate_next_action_stopping_wrapper (example_env :: (nat, nat, unit, unit, unit) env)
        float32 () () 1 (Gumbel_muzero_interior_action_selection (\<lambda>t b n. [])) 1 1 (\<lambda>e. True))
     (Inr (1 :: nat, example_tree\<lparr>root_index := [1], parents := [[- 1, - 1, 0]]\<rparr>, 1,
           [[0, - 1]], True),
      [Instantiate_tree 2, Simulation 0, Simulate 2, Expand [1], Backward [1],
       Stopping_criteria [11]]) =
   (Inr (1, example_tree\<lparr>root_index := [1], parents := [[- 1, - 1, 0]]\<rparr>, 1, [[0, - 1]], True),
    [Instantiate_tree 2, Simulation 0, Simulate 2, Expand [1], Backward [1],
     Stopping_criteria [11]]) \<and>
   (\<exists>out trace.
      muzero_policy_for_action_sequence (example_env :: (nat, nat, unit, unit, unit) env) float32 ()
        0 example_root () 1 (\<lambda>e. True) None None (\<lambda>t b n. []) 0 (3 / 10) (5 / 4) 19652 1 None 2 =
      (Inr out, trace) \<and>
      length (filter (\<lambda>e. \<exists>x. e = Stopping_criteria x) trace) = 1 \<and>
      action_weights out = [] \<and> length (action out) = 1 \<and> action out ! 0 ! 1 = - 1)"
proof -
  let ?t = "(example_tree :: (nat, unit) tree)\<lparr>root_index := [1], parents := [[- 1, - 1, 0]]\<rparr>"
  let ?tr = "[Instantiate_tree 2, Simulation 0, Simulate 2, Expand [1], Backward [1],
       Stopping_criteria [11 :: nat]]"
  let ?out = "\<lparr>action = [[0, - 1]], action_weights = [], search_tree = ?t\<rparr>"
  note h = stopped_generation_is_noop [where stop = True and d = 1
      and env = "example_env :: (nat, nat, unit, unit, unit) env" and dt = float32
      and params = "()" and recurrent_fn = "()" and batch_size = 1
      and f = "Gumbel_muzero_interior_action_selection (\<lambda>t b n. [])" and num_simulations = 1
      and temperature = 1 and stopping_criteria_fn = "\<lambda>e. True" and g = 1 and k = 1
      and t = ?t and pa = "[[0, - 1]]" and tr = ?tr and upper = 2 and rng_key = 0
      and root_output = example_root and invalid_actions = None and max_depth = None
      and qtransform = "\<lambda>t b n. []" and dirichlet_fraction = 0 and dirichlet_alpha = "3 / 10"
      and pb_c_init = "5 / 4" and pb_c_base = 19652 and extra = None
      and num_actions_to_generate = 2 and out = ?out and trace = ?tr]
  from h have 1: "fori_loop 1 2
     (generate_next_action_stopping_wrapper (example_env :: (nat, nat, unit, unit, unit) env)
        float32 () () 1 (Gumbel_muzero_interior_action_selection (\<lambda>t b n. [])) 1 1 (\<lambda>e. True))
     (Inr (1 :: nat, ?t, 1, [[0, - 1]], True), ?tr) =
     (Inr (1, ?t, 1, [[0, - 1]], True), ?tr)"
    by blast
  have 2: "action_weights ?out = [] \<and> length (action ?out) = 1 \<and>
      action ?out ! 0 ! 1 = - 1"
    by simp
  have 3: "length (filter (\<lambda>e. \<exists>x. e = Stopping_criteria x) ?tr) = 1"
    by simp
  from 1 2 3 example_run show ?thesis
    by blast
qed

section \<open>The depth bound when \<open>max_depth\<close> is unset\<close>

text \<open>
  Claim C6, as the code has it. A call of the multi-step policy that leaves
  \<open>max_depth\<close> unset runs exactly as the call that passes
  \<open>num_simulations * num_actions_to_generate\<close>.
\<close>

theorem unset_max_depth_is_product:
  "muzero_policy_for_action_sequence env dt params rng_key root_output recurrent_fn num_simulations
       stopping_criteria_fn invalid_actions None qtransform dirichlet_fraction dirichlet_alpha
       pb_c_init pb_c_base temperature extra num_actions_to_generate =
   muzero_policy_for_action_sequence env dt params rng_key root_output recurrent_fn num_simulations
       stopping_criteria_fn invalid_actions
       (Some (int (num_simulations * num_actions_to_generate)))
       qtransform dirichlet_fraction dirichlet_alpha
       pb_c_init pb_c_base temperature extra num_actions_to_generate"
proof (cases invalid_actions)
  case None
  show ?thesis
    unfolding None policy_without_mask by simp
next
  case (Some invalid)
  show ?thesis
    by (simp add: Some muzero_policy_for_action_sequence_def)
qed

text \<open>
  With one simulation per action and two actions to generate, the call of \<open>simulate\<close>
  gets the depth bound 2; no call gets the bound 1, the number of simulations.
\<close>

theorem unset_max_depth_counterexample:
  "snd (muzero_policy_for_action_sequence (example_env :: (nat, nat, unit, unit, unit) env) float32
          () 0 example_root () 1 (\<lambda>e. True) None None (\<lambda>t b n. []) 0 (3 / 10) (5 / 4) 19652 1
          None 2) =
     [Instantiate_tree 2, Simulation 0, Simulate 2, Expand [1], Backward [1],
      Stopping_criteria [11]] \<and>
   Simulate (int 1) \<notin>
     set (snd (muzero_policy_for_action_sequence
                 (example_env :: (nat, nat, unit, unit, unit) env) float32
                 () 0 example_root () 1 (\<lambda>e. True) None None (\<lambda>t b n. []) 0 (3 / 10) (5 / 4)
                 19652 1 None 2))"
  unfolding example_run by simp

section \<open>The final action of the Gumbel policy\<close>

subsection \<open>The first index of the maximum\<close>

lemma length_takeWhile_lt: "\<exists>x\<in>set xs. \<not> P x \<Longrightarrow> length (takeWhile P xs) < length xs"
  by (induction xs) auto

lemma argmax_less_length: "xs \<noteq> [] \<Longrightarrow> argmax xs < length xs"
proof -
  assume "xs \<noteq> []"
  then have "Max (set xs) \<in> set xs"
    by (intro Max_in) simp_all
  then have "\<exists>x\<in>set xs. \<not> x \<noteq> Max (set xs)"
    by blast
  then show ?thesis
    unfolding argmax_def by (rule length_takeWhile_lt)
qed

lemma nth_argmax: "xs \<noteq> [] \<Longrightarrow> xs ! argmax xs = Max (set xs)"
  using argmax_less_length [of xs] nth_length_takeWhile [of "\<lambda>x. x \<noteq> Max (set xs)" xs]
  by (simp add: argmax_def)

lemma argmax_first: "j < argmax xs \<Longrightarrow> xs ! j \<noteq> Max (set xs)"
  unfolding argmax_def
  using nth_mem [of j "takeWhile (\<lambda>x. x \<noteq> Max (set xs)) xs"]
    set_takeWhileD [of "xs ! j" "\<lambda>x. x \<noteq> Max (set xs)" xs]
  by (simp add: takeWhile_nth)

lemma nth_le_argmax: "i < length xs \<Longrightarrow> xs ! i \<le> xs ! argmax xs"
proof -
  assume i: "i < length xs"
  then have "xs \<noteq> []" by auto
  then show ?thesis
    using i by (simp add: nth_argmax)
qed

lemma argmax_all_equal:
  assumes ne: "r \<noteq> []" and eq: "\<forall>a<length r. r ! a = x"
  shows "argmax r = 0"
proof -
  have "Max (set r) \<in> set r"
    using ne by (intro Max_in) simp_all
  then obtain i where i: "i < length r" "r ! i = Max (set r)"
    unfolding in_set_conv_nth by blast
  have m: "Max (set r) = x"
    using eq i by fastforce
  have "0 < length r"
    using ne by simp
  with eq have h: "r ! 0 = x"
    by blast
  obtain y ys where r: "r = y # ys"
    using ne by (cases r) simp_all
  have y: "y = x"
    using h unfolding r by simp
  have "takeWhile (\<lambda>z. z \<noteq> x) (y # ys) = []"
    unfolding y by simp
  then show ?thesis
    unfolding argmax_def m unfolding r by simp
qed

subsection \<open>The argmax over the considered actions\<close>

lemma argmax_restricted:
  fixes r :: "real option list"
  assumes r: "\<And>a. a < length r \<Longrightarrow> r ! a = (if C a then Some (s a) else None)"
      and ne: "\<exists>a<length r. C a"
  shows "argmax r < length r \<and> C (argmax r) \<and>
         (\<forall>a<length r. C a \<longrightarrow> s a \<le> s (argmax r) \<and> (s a = s (argmax r) \<longrightarrow> argmax r \<le> a))"
proof -
  from ne obtain a0 where a0: "a0 < length r" "C a0" by blast
  then have nonempty: "r \<noteq> []" by auto
  have i: "argmax r < length r"
    using nonempty by (rule argmax_less_length)
  have "r ! a0 \<le> r ! argmax r"
    using a0(1) by (rule nth_le_argmax)
  then have "Some (s a0) \<le> r ! argmax r"
    using r [OF a0(1)] a0(2) by simp
  then have Ci: "C (argmax r)"
    using r [OF i] by (cases "C (argmax r)") simp_all
  have best: "s a \<le> s (argmax r) \<and> (s a = s (argmax r) \<longrightarrow> argmax r \<le> a)"
    if a: "a < length r" "C a" for a
  proof
    have "r ! a \<le> r ! argmax r"
      using a(1) by (rule nth_le_argmax)
    then show "s a \<le> s (argmax r)"
      using r [OF a(1)] r [OF i] a(2) Ci by simp
    show "s a = s (argmax r) \<longrightarrow> argmax r \<le> a"
    proof
      assume "s a = s (argmax r)"
      then have "r ! a = Max (set r)"
        using r [OF a(1)] r [OF i] a(2) Ci nth_argmax [OF nonempty] by simp
      then show "argmax r \<le> a"
        using argmax_first [of a r] by (cases "a < argmax r") simp_all
    qed
  qed
  from i Ci best show ?thesis by blast
qed

lemma score_considered_nth:
  assumes "b < length counts" and "a < length (counts ! b)"
  shows "score_considered considered_visit gumbel logits normalized_qvalues counts ! b ! a =
         (if counts ! b ! a = considered_visit ! b
          then Some (gumbel ! b ! a + logits ! b ! a + normalized_qvalues ! b ! a) else None)"
  using assms by (simp add: score_considered_def)

lemma score_considered_length:
  "length (score_considered considered_visit gumbel logits normalized_qvalues counts) = length counts"
  "b < length counts \<Longrightarrow>
   length (score_considered considered_visit gumbel logits normalized_qvalues counts ! b) =
   length (counts ! b)"
  by (simp_all add: score_considered_def)

lemma masked_argmax_nth:
  assumes "masked_argmax to_argmax invalid_actions = Inr acts" and "b < length to_argmax"
  shows "\<exists>row. acts ! b = int (argmax row) \<and> length row = length (to_argmax ! b) \<and>
           (\<forall>a<length row. row ! a =
              (if (case invalid_actions of None \<Rightarrow> True | Some invalid \<Rightarrow> invalid ! b ! a = 0)
               then to_argmax ! b ! a else None))"
proof (cases invalid_actions)
  case None
  with assms have "acts = map (\<lambda>row. int (argmax row)) to_argmax"
    by (simp add: masked_argmax_def split: if_splits)
  with assms(2) None show ?thesis
    by (intro exI [of _ "to_argmax ! b"]) simp
next
  case (Some invalid)
  let ?m = "map2 (\<lambda>b row. map2 (\<lambda>a s. if invalid ! b ! a \<noteq> 0 then None else s)
                                           [0..<length row] row)
                             [0..<length to_argmax] to_argmax"
  from assms Some have "acts = map (\<lambda>row. int (argmax row)) ?m"
    by (simp add: masked_argmax_def split: if_splits)
  with assms(2) have "acts ! b = int (argmax (?m ! b))"
    by simp
  moreover have "length (?m ! b) = length (to_argmax ! b)"
    using assms(2) by simp
  moreover have "?m ! b ! a = (if invalid ! b ! a = 0 then to_argmax ! b ! a else None)"
    if "a < length (to_argmax ! b)" for a
    using assms(2) that by simp
  ultimately show ?thesis
    using Some by auto
qed

lemma gumbel_policy_returns:
  assumes run: "gumbel_muzero_policy env dt params rng_key root_output recurrent_fn num_simulations
             invalid_actions max_depth qtransform max_num_considered_actions gumbel_scale = Inr out"
      and logits: "mask_invalid_actions dt (prior_logits root_output) invalid_actions = Inr logits"
  shows "masked_argmax
           (score_considered
              (map (\<lambda>row. Max (set row)) (visit_counts (summary (search_tree out))))
              (map2 (\<lambda>b row.
                  map (\<lambda>a. gumbel_scale *
                         random_gumbel env (snd (random_split2 env rng_key)) (length logits)
                           (length row) b a)
                      [0..<length row])
                 [0..<length logits] logits)
              logits
              (map (\<lambda>b. qtransform (search_tree out) b (INITIAL_ROOT_INDEX env))
                 [0..<length (node_values (search_tree out))])
              (visit_counts (summary (search_tree out))))
           invalid_actions = Inr (action out)"
proof -
  obtain k g where s: "random_split2 env rng_key = (k, g)"
    by (cases "random_split2 env rng_key") auto
  from run show ?thesis
    by (auto simp add: gumbel_muzero_policy_def logits s Let_def split: if_splits sum.splits)
qed


lemma mask_invalid_actions_Inr:
  assumes "mask_invalid_actions dt x invalid_actions = Inr y"
  shows "map length y = map length x \<and>
         (\<forall>b<length x. \<forall>a<length (x ! b).
            (case invalid_actions of None \<Rightarrow> True | Some invalid \<Rightarrow> invalid ! b ! a = 0) \<longrightarrow>
            y ! b ! a =
              x ! b ! a - (case invalid_actions of None \<Rightarrow> 0 | Some invalid \<Rightarrow> Max (set (x ! b))))"
proof (cases invalid_actions)
  case None
  with assms show ?thesis
    by (simp add: mask_invalid_actions_def)
next
  case (Some invalid)
  with assms have shape: "map length x = map length invalid" "[] \<notin> set x"
    by (simp_all add: mask_invalid_actions_def split: if_splits)
  from mask_invalid_actions_Some [OF shape, of dt] assms Some show ?thesis
    by auto
qed

lemma gumbel_policy_masks:
  assumes "gumbel_muzero_policy env dt params rng_key root_output recurrent_fn num_simulations
             invalid_actions max_depth qtransform max_num_considered_actions gumbel_scale = Inr out"
  shows "\<exists>logits. mask_invalid_actions dt (prior_logits root_output) invalid_actions = Inr logits"
  using assms
  by (cases "mask_invalid_actions dt (prior_logits root_output) invalid_actions")
     (simp_all add: gumbel_muzero_policy_def)

lemma gumbel_policy_nonempty:
  assumes run: "gumbel_muzero_policy env dt params rng_key root_output recurrent_fn num_simulations
             invalid_actions max_depth qtransform max_num_considered_actions gumbel_scale = Inr out"
  shows "[] \<notin> set (visit_counts (summary (search_tree out)))"
proof -
  from gumbel_policy_masks [OF run] obtain logits where
    logits: "mask_invalid_actions dt (prior_logits root_output) invalid_actions = Inr logits"
    by blast
  obtain k g where s: "random_split2 env rng_key = (k, g)"
    by (cases "random_split2 env rng_key") auto
  from run show ?thesis
    by (auto simp add: gumbel_muzero_policy_def logits s Let_def split: if_splits sum.splits)
qed

lemma gumbel_final_action_masked:
  assumes run: "gumbel_muzero_policy env dt params rng_key root_output recurrent_fn num_simulations
             invalid_actions max_depth qtransform max_num_considered_actions gumbel_scale = Inr out"
      and logits: "mask_invalid_actions dt (prior_logits root_output) invalid_actions = Inr logits"
      and counts: "counts = visit_counts (summary (search_tree out)) ! b"
      and b: "b < length (visit_counts (summary (search_tree out)))" "b < length logits"
             "b < length (node_values (search_tree out))"
      and A: "length counts = length (logits ! b)"
      and valid: "valid = (\<lambda>a. case invalid_actions of None \<Rightarrow> True
                                 | Some invalid \<Rightarrow> invalid ! b ! a = 0)"
      and score: "score = (\<lambda>a. gumbel_scale *
                               random_gumbel env (snd (random_split2 env rng_key)) (length logits)
                                 (length counts) b a +
                             logits ! b ! a +
                             qtransform (search_tree out) b (INITIAL_ROOT_INDEX env) ! a)"
  shows "((\<exists>a<length counts. valid a \<and> counts ! a = Max (set counts)) \<longrightarrow>
          (\<exists>best. action out ! b = int best \<and> best < length counts \<and> valid best \<and>
             counts ! best = Max (set counts) \<and>
             (\<forall>a<length counts. valid a \<and> counts ! a = Max (set counts) \<longrightarrow>
                score a \<le> score best \<and> (score a = score best \<longrightarrow> best \<le> a)))) \<and>
         (\<not> (\<exists>a<length counts. valid a \<and> counts ! a = Max (set counts)) \<longrightarrow>
          action out ! b = 0)"
proof -
  let ?vc = "visit_counts (summary (search_tree out))"
  let ?g = "map2 (\<lambda>b row.
                  map (\<lambda>a. gumbel_scale *
                         random_gumbel env (snd (random_split2 env rng_key)) (length logits)
                           (length row) b a)
                      [0..<length row])
                 [0..<length logits] logits"
  let ?q = "map (\<lambda>b. qtransform (search_tree out) b (INITIAL_ROOT_INDEX env))
                 [0..<length (node_values (search_tree out))]"
  let ?s = "score_considered (map (\<lambda>row. Max (set row)) ?vc) ?g logits ?q ?vc"
  have len: "length ?s = length ?vc" "length (?s ! b) = length counts"
    using b(1) by (simp_all add: score_considered_length counts)
  from gumbel_policy_returns [OF run logits] have "masked_argmax ?s invalid_actions = Inr (action out)" .
  from masked_argmax_nth [OF this, of b] b(1) len obtain row where
    act: "action out ! b = int (argmax row)" and lrow: "length row = length counts"
    and row: "\<forall>a<length row. row ! a = (if valid a then ?s ! b ! a else None)"
    unfolding valid by auto
  have entry: "?s ! b ! a = (if counts ! a = Max (set counts) then Some (score a) else None)"
    if a: "a < length counts" for a
  proof -
    have 1: "?s ! b ! a =
        (if ?vc ! b ! a = map (\<lambda>row. Max (set row)) ?vc ! b
         then Some (?g ! b ! a + logits ! b ! a + ?q ! b ! a) else None)"
      using b(1) a by (intro score_considered_nth) (simp_all add: counts)
    have 2: "map (\<lambda>row. Max (set row)) ?vc ! b = Max (set counts)"
      using b(1) by (simp add: counts)
    have 3: "?g ! b ! a = gumbel_scale *
        random_gumbel env (snd (random_split2 env rng_key)) (length logits) (length counts) b a"
      using b(2) a A by simp
    have 4: "?q ! b = qtransform (search_tree out) b (INITIAL_ROOT_INDEX env)"
      using b(3) by simp
    show ?thesis
      unfolding 1 2 3 4 score counts [symmetric] ..
  qed
  have r: "row ! a = (if valid a \<and> counts ! a = Max (set counts) then Some (score a) else None)"
    if "a < length row" for a
    using that row entry lrow by simp
  have "counts \<noteq> []"
    using gumbel_policy_nonempty [OF run] b(1) counts by (metis nth_mem)
  then have nonempty: "row \<noteq> []"
    using lrow by auto
  have first: "(\<exists>best. action out ! b = int best \<and> best < length counts \<and> valid best \<and>
             counts ! best = Max (set counts) \<and>
             (\<forall>a<length counts. valid a \<and> counts ! a = Max (set counts) \<longrightarrow>
                score a \<le> score best \<and> (score a = score best \<longrightarrow> best \<le> a)))"
    if ne: "\<exists>a<length counts. valid a \<and> counts ! a = Max (set counts)"
  proof -
    from ne lrow have "\<exists>a<length row. valid a \<and> counts ! a = Max (set counts)"
      by simp
    from argmax_restricted [of row "\<lambda>a. valid a \<and> counts ! a = Max (set counts)" score, OF r this]
    show ?thesis
      using act lrow by (intro exI [of _ "argmax row"]) simp
  qed
  have second: "action out ! b = 0"
    if none: "\<not> (\<exists>a<length counts. valid a \<and> counts ! a = Max (set counts))"
  proof -
    have "\<forall>a<length row. row ! a = None"
      using r none lrow by auto
    from argmax_all_equal [OF nonempty this] act show ?thesis
      by simp
  qed
  from first second show ?thesis
    by blast
qed

subsection \<open>A call on the small environment\<close>

lemma example_summary_counts:
  "visit_counts (summary (example_tree :: (nat, 'x) tree)) = [[1, 1]]"
  by (simp add: summary_def example_tree_def jnp_get_def jnp_index_def)

lemma example_gumbel_call:
  assumes m1: "mask_invalid_actions float32 [[0, 0]] invalid_actions = Inr [[l0, l1]]"
      and am: "masked_argmax (score_considered [1] [[0, s]] [[l0, l1]] [[q0, q1]] [[1, 1]])
                 invalid_actions = Inr acts"
      and m2: "mask_invalid_actions float32 (map2 (map2 (+)) [[l0, l1]] [[q0, q1]])
                 invalid_actions = Inr csl"
  shows "gumbel_muzero_policy (example_env :: (nat, nat, gumbel_muzero_extra_data, unit, unit) env)
           float32 () 0 example_root () 1 invalid_actions None (\<lambda>t b n. [q0, q1]) 16 s =
         Inr \<lparr>action = acts, action_weights = softmax csl, search_tree = example_tree\<rparr>"
proof -
  let ?e = "example_env :: (nat, nat, gumbel_muzero_extra_data, unit, unit) env"
  have prior: "prior_logits example_root = [[0, 0]]"
    by (simp add: example_root_def)
  have split: "random_split2 ?e 0 = (1, 2)"
    by (simp add: example_env_def)
  have g: "random_gumbel ?e 2 B A b 0 = 0" "random_gumbel ?e 2 B A b (Suc 0) = 1" for B A b
    by (simp_all add: example_env_def)
  have noise: "map2 (\<lambda>b row. map (\<lambda>a. s * random_gumbel ?e 2 (length [[l0, l1]])
                                        (length row) b a) [0..<length row])
                 [0..<length [[l0, l1]]] [[l0, l1]] = [[0, s]]"
    by (simp add: upt_0_2 g)
  have tree: "search ?e p k r f g h n d i x = example_tree" for p k r f g h n d i x
    by (simp add: example_env_def)
  have q: "map (\<lambda>b. [q0, q1])
             [0..<length (node_values (example_tree :: (nat, gumbel_muzero_extra_data) tree))] =
           [[q0, q1]]"
    by (simp add: example_tree_def)
  have considered: "map (\<lambda>row. Max (set row)) [[1, 1 :: real]] = [1]"
    by simp
  have nonempty: "[] \<notin> set [[1, 1 :: real]]"
    by simp
  have upd: "prior_logits (example_root\<lparr>prior_logits := x\<rparr>) = x" for x
    by simp
  show ?thesis
    unfolding gumbel_muzero_policy_def prior m1 sum.case Let_def
    by (simp only: upd split prod.case noise tree example_summary_counts
        considered q am sum.case m2 nonempty if_False)
qed

lemma example_gumbel_scores:
  "\<exists>acts w. gumbel_muzero_policy
       (example_env :: (nat, nat, gumbel_muzero_extra_data, unit, unit) env)
       float32 () 0 example_root () 1 (Some [[0, 0]]) None (\<lambda>t b n. [1 / 2, 0]) 16 1 =
     Inr \<lparr>action = acts, action_weights = w, search_tree = example_tree\<rparr>"
proof -
  have m1: "mask_invalid_actions float32 [[0, 0]] (Some [[0, 0]]) = Inr [[0, 0]]"
    by (simp add: mask_invalid_actions_def)
  obtain acts where am: "masked_argmax
      (score_considered [1] [[0, 1]] [[0, 0]] [[1 / 2, 0]] [[1, 1]]) (Some [[0, 0]]) = Inr acts"
    by (simp add: masked_argmax_def score_considered_def upt_0_2 del: One_nat_def)
  obtain csl where m2: "mask_invalid_actions float32
      (map2 (map2 (+)) [[0, 0]] [[1 / 2, 0]]) (Some [[0, 0]]) = Inr csl"
    by (simp add: mask_invalid_actions_def)
  from example_gumbel_call [OF m1 am m2] show ?thesis
    by blast
qed

lemma example_gumbel_all_invalid:
  "\<exists>w. gumbel_muzero_policy
       (example_env :: (nat, nat, gumbel_muzero_extra_data, unit, unit) env)
       float32 () 0 example_root () 1 (Some [[1, 1]]) None (\<lambda>t b n. [0, 0]) 16 0 =
     Inr \<lparr>action = [0], action_weights = w, search_tree = example_tree\<rparr>"
proof -
  have m1: "mask_invalid_actions float32 [[0, 0]] (Some [[1, 1]]) =
      Inr [[finfo_min float32, finfo_min float32]]"
    by (simp add: mask_invalid_actions_def del: finfo_min.simps)
  have am: "masked_argmax
      (score_considered [1] [[0, 0]] [[finfo_min float32, finfo_min float32]] [[0, 0]] [[1, 1]])
      (Some [[1, 1]]) = Inr [0]"
    by (simp add: masked_argmax_def score_considered_def upt_0_2 argmax_def
        del: One_nat_def finfo_min.simps)
  obtain csl where m2: "mask_invalid_actions float32
      (map2 (map2 (+)) [[finfo_min float32, finfo_min float32]] [[0, 0]]) (Some [[1, 1]]) =
      Inr csl"
    by (simp add: mask_invalid_actions_def del: finfo_min.simps)
  from example_gumbel_call [OF m1 am m2] show ?thesis
    by blast
qed

text \<open>
  Claim C1. Let the Gumbel policy return, and take an element \<open>b\<close> of the batch. If
  some valid action of \<open>b\<close> has the maximal root visit count, the action returned for
  \<open>b\<close> is a valid action with the maximal visit count, its sum of Gumbel noise, prior
  logit and completed Q-value is the greatest among such actions, and it has the lowest
  index among those that reach this greatest sum. If no valid action has the maximal
  visit count, as when every action of \<open>b\<close> is invalid, the action returned is the
  action 0, valid or not. In both cases the action is a function of the scores and of
  the mask; no sample of the visit-count distribution enters.
\<close>

theorem gumbel_final_action_is_argmax_or_first:
  assumes run: "gumbel_muzero_policy env dt params rng_key root_output recurrent_fn num_simulations
             invalid_actions max_depth qtransform max_num_considered_actions gumbel_scale = Inr out"
      and counts: "counts = visit_counts (summary (search_tree out)) ! b"
      and b: "b < length (visit_counts (summary (search_tree out)))"
             "b < length (prior_logits root_output)"
             "b < length (node_values (search_tree out))"
      and A: "length counts = length (prior_logits root_output ! b)"
      and valid: "valid = (\<lambda>a. case invalid_actions of None \<Rightarrow> True
                                 | Some invalid \<Rightarrow> invalid ! b ! a = 0)"
      and score: "score = (\<lambda>a. gumbel_scale *
                               random_gumbel env (snd (random_split2 env rng_key))
                                 (length (prior_logits root_output)) (length counts) b a +
                             prior_logits root_output ! b ! a +
                             qtransform (search_tree out) b (INITIAL_ROOT_INDEX env) ! a)"
  shows "((\<exists>a<length counts. valid a \<and> counts ! a = Max (set counts)) \<longrightarrow>
          (\<exists>best. action out ! b = int best \<and> best < length counts \<and> valid best \<and>
             counts ! best = Max (set counts) \<and>
             (\<forall>a<length counts. valid a \<and> counts ! a = Max (set counts) \<longrightarrow>
                score a \<le> score best \<and> (score a = score best \<longrightarrow> best \<le> a)))) \<and>
         (\<not> (\<exists>a<length counts. valid a \<and> counts ! a = Max (set counts)) \<longrightarrow>
          action out ! b = 0)"
proof -
  from gumbel_policy_masks [OF run] obtain logits where
    logits: "mask_invalid_actions dt (prior_logits root_output) invalid_actions = Inr logits"
    by blast
  let ?c = "case invalid_actions of None \<Rightarrow> 0
            | Some invalid \<Rightarrow> Max (set (prior_logits root_output ! b))"
  from mask_invalid_actions_Inr [OF logits] have
    shape: "map length logits = map length (prior_logits root_output)"
    and ent: "\<forall>a<length (prior_logits root_output ! b). valid a \<longrightarrow>
                logits ! b ! a = prior_logits root_output ! b ! a - ?c"
    using b(2) unfolding valid by blast+
  have len: "length logits = length (prior_logits root_output)"
    using shape by (metis length_map)
  have row: "length (logits ! b) = length (prior_logits root_output ! b)"
    using shape b(2) len by (metis nth_map)
  define score' where "score' = (\<lambda>a. gumbel_scale *
                               random_gumbel env (snd (random_split2 env rng_key)) (length logits)
                                 (length counts) b a +
                             logits ! b ! a +
                             qtransform (search_tree out) b (INITIAL_ROOT_INDEX env) ! a)"
  have rel: "score' a = score a - ?c" if "a < length counts" "valid a" for a
    using that ent A by (simp add: score'_def score len)
  have b2: "b < length logits" using b(2) len by simp
  have A': "length counts = length (logits ! b)" using A row by simp
  note m = gumbel_final_action_masked [OF run logits counts b(1) b2 b(3) A' valid score'_def]
  have first: "(\<exists>best. action out ! b = int best \<and> best < length counts \<and> valid best \<and>
             counts ! best = Max (set counts) \<and>
             (\<forall>a<length counts. valid a \<and> counts ! a = Max (set counts) \<longrightarrow>
                score a \<le> score best \<and> (score a = score best \<longrightarrow> best \<le> a)))"
    if ne: "\<exists>a<length counts. valid a \<and> counts ! a = Max (set counts)"
  proof -
    from m ne obtain best where best: "action out ! b = int best" "best < length counts"
      "valid best" "counts ! best = Max (set counts)"
      "\<forall>a<length counts. valid a \<and> counts ! a = Max (set counts) \<longrightarrow>
          score' a \<le> score' best \<and> (score' a = score' best \<longrightarrow> best \<le> a)"
      by blast
    have "score a \<le> score best \<and> (score a = score best \<longrightarrow> best \<le> a)"
      if "a < length counts" "valid a" "counts ! a = Max (set counts)" for a
      using best(5) that rel [OF that(1,2)] rel [OF best(2,3)] by auto
    with best(1-4) show ?thesis
      by blast
  qed
  from m first show ?thesis
    by blast
qed

text \<open>
  On the small environment with both actions valid, Gumbel scale 1 and completed
  Q-values \<open>[1 / 2, 0]\<close>, both actions have the visit count 1, the scores are \<open>1 / 2\<close>
  for action 0 and 1 for action 1, and the action returned is 1.
\<close>

theorem gumbel_final_action_witness:
  "\<exists>out.
     gumbel_muzero_policy (example_env :: (nat, nat, gumbel_muzero_extra_data, unit, unit) env)
       float32 () 0 example_root () 1 (Some [[0, 0]]) None (\<lambda>t b n. [1 / 2, 0]) 16 1 = Inr out \<and>
     visit_counts (summary (search_tree out)) ! 0 = [1, 1] \<and>
     1 * random_gumbel (example_env :: (nat, nat, gumbel_muzero_extra_data, unit, unit) env)
           (snd (random_split2
              (example_env :: (nat, nat, gumbel_muzero_extra_data, unit, unit) env) 0)) 1 2 0 0 +
       prior_logits example_root ! 0 ! 0 + [1 / 2, 0] ! 0 = 1 / 2 \<and>
     1 * random_gumbel (example_env :: (nat, nat, gumbel_muzero_extra_data, unit, unit) env)
           (snd (random_split2
              (example_env :: (nat, nat, gumbel_muzero_extra_data, unit, unit) env) 0)) 1 2 0 1 +
       prior_logits example_root ! 0 ! 1 + [1 / 2, 0] ! 1 = 1 \<and>
     action out ! 0 = 1"
proof -
  let ?e = "example_env :: (nat, nat, gumbel_muzero_extra_data, unit, unit) env"
  from example_gumbel_scores obtain acts w where
    run: "gumbel_muzero_policy ?e float32 () 0 example_root () 1 (Some [[0, 0]]) None
            (\<lambda>t b n. [1 / 2, 0]) 16 1 =
          Inr \<lparr>action = acts, action_weights = w, search_tree = example_tree\<rparr>"
    by blast
  let ?out = "\<lparr>action = acts, action_weights = w,
               search_tree = (example_tree :: (nat, gumbel_muzero_extra_data) tree)\<rparr>"
  let ?valid = "\<lambda>a. case Some [[0, 0 :: real]] of None \<Rightarrow> True
                       | Some invalid \<Rightarrow> invalid ! 0 ! a = 0"
  let ?score = "\<lambda>a. 1 * random_gumbel ?e (snd (random_split2 ?e 0))
                           (length (prior_logits example_root)) (length [1, 1 :: real]) 0 a +
                       prior_logits example_root ! 0 ! a + [1 / 2, 0 :: real] ! a"
  have counts: "[1, 1] = visit_counts (summary (search_tree ?out)) ! 0"
    by (simp add: example_summary_counts)
  have b1: "0 < length (visit_counts (summary (search_tree ?out)))"
    by (simp add: example_summary_counts)
  have b2: "0 < length (prior_logits example_root)"
    by (simp add: example_root_def)
  have b3: "0 < length (node_values (search_tree ?out))"
    by (simp add: example_tree_def)
  have A: "length [1, 1 :: real] = length (prior_logits example_root ! 0)"
    by (simp add: example_root_def)
  have s0: "?score 0 = 1 / 2" and s1: "?score 1 = 1"
    by (simp_all add: example_env_def example_root_def)
  have ne: "\<exists>a<length [1, 1 :: real]. ?valid a \<and> [1, 1 :: real] ! a = Max (set [1, 1])"
    by (intro exI [of _ 1]) simp
  from gumbel_final_action_is_argmax_or_first
         [OF run counts b1 b2 b3 A refl refl, THEN conjunct1, rule_format, OF ne]
  obtain best where best: "action ?out ! 0 = int best" "best < length [1, 1 :: real]"
    and greatest: "\<forall>a<length [1, 1 :: real]. ?valid a \<and> [1, 1 :: real] ! a = Max (set [1, 1]) \<longrightarrow>
                     ?score a \<le> ?score best"
    by blast
  from greatest [rule_format, of 1] have "?score 1 \<le> ?score best"
    by simp
  then have "best \<noteq> 0"
    unfolding s1 using s0 by (intro notI) simp
  with best(2) have "best = 1"
    by (cases best) simp_all
  with best(1) have act: "action ?out ! 0 = 1"
    by simp
  have s0': "1 * random_gumbel ?e (snd (random_split2 ?e 0)) 1 2 0 0 +
       prior_logits example_root ! 0 ! 0 + [1 / 2, 0] ! 0 = 1 / 2"
    by (simp add: example_env_def example_root_def)
  have s1': "1 * random_gumbel ?e (snd (random_split2 ?e 0)) 1 2 0 1 +
       prior_logits example_root ! 0 ! 1 + [1 / 2, 0] ! 1 = 1"
    by (simp add: example_env_def example_root_def)
  from run counts s0' s1' act show ?thesis
    by (intro exI [of _ ?out]) (simp only: simp_thms counts [symmetric])
qed

text \<open>
  With both actions invalid no action is in the set the maximum ranges over; the policy
  returns action 0, which the mask marks as invalid.
\<close>

theorem gumbel_all_invalid_counterexample:
  "\<exists>out.
     gumbel_muzero_policy (example_env :: (nat, nat, gumbel_muzero_extra_data, unit, unit) env)
       float32 () 0 example_root () 1 (Some [[1, 1]]) None (\<lambda>t b n. [0, 0]) 16 0 = Inr out \<and>
     action out ! 0 = 0 \<and>
     [[1, 1 :: real]] ! 0 ! nat (action out ! 0) = 1"
proof -
  from example_gumbel_all_invalid obtain w where
    run: "gumbel_muzero_policy
            (example_env :: (nat, nat, gumbel_muzero_extra_data, unit, unit) env)
            float32 () 0 example_root () 1 (Some [[1, 1]]) None (\<lambda>t b n. [0, 0]) 16 0 =
          Inr \<lparr>action = [0], action_weights = w, search_tree = example_tree\<rparr>"
    by blast
  show ?thesis
    unfolding run by simp
qed

section \<open>The standard policy at low temperatures\<close>











subsection \<open>Calls on the small environment\<close>








end
